theory Spec2Isabelle
  imports Main "HOL-Library.Word" "HOL-Library.Multiset"
begin

unbundle bit_operations_syntax

section \<open>Strings\<close>

text \<open>
  Go strings are byte strings; \<^typ>\<open>string\<close> is a list of 8-bit characters.  The functions
  of this section are the ones of the packages \<^verbatim>\<open>strings\<close> and \<^verbatim>\<open>strconv\<close> that
  \<^verbatim>\<open>envconfig.go\<close> calls with fixed separators, written out on bytes.
\<close>

definition byte :: "char \<Rightarrow> nat" where
  "byte c = of_char c"

text \<open>
  \<^verbatim>\<open>strings.ToUpper\<close> on the ASCII letters.  The library also maps the letters outside
  ASCII; their bytes are kept here, and no result below depends on them.
\<close>

definition toUpperByte :: "char \<Rightarrow> char" where
  "toUpperByte c = (if 97 \<le> byte c \<and> byte c \<le> 122 then char_of (byte c - 32) else c)"

definition ToUpper :: "string \<Rightarrow> string" where
  "ToUpper s = map toUpperByte s"

text \<open>\<^verbatim>\<open>strings.Split(s, sep)\<close> for a separator of one byte: \<open>n\<close> separators give \<open>n + 1\<close> pieces.\<close>

fun Split :: "string \<Rightarrow> char \<Rightarrow> string list" where
  "Split [] sep = [[]]"
| "Split (c # cs) sep =
     (if c = sep then [] # Split cs sep
      else (case Split cs sep of [] \<Rightarrow> [[c]] | w # ws \<Rightarrow> (c # w) # ws))"

text \<open>\<^verbatim>\<open>strings.Join(elems, sep)\<close>.\<close>

fun Join :: "string list \<Rightarrow> string \<Rightarrow> string" where
  "Join [] sep = []"
| "Join [w] sep = w"
| "Join (w # ws) sep = w @ sep @ Join ws sep"

text \<open>
  \<^verbatim>\<open>strings.TrimSpace\<close> removes the leading and the trailing runes for which
  \<^verbatim>\<open>unicode.IsSpace\<close> holds.  \<open>spaceRunes\<close> lists their UTF-8 encodings: the six ASCII
  spaces, U+0085, U+00A0, U+1680, U+2000 to U+200A, U+2028, U+2029, U+202F, U+205F and
  U+3000.  A byte that starts none of them is not a space.
\<close>

definition spaceRunes :: "string list" where
  "spaceRunes =
     [[CHR 0x09], [CHR 0x0A], [CHR 0x0B], [CHR 0x0C], [CHR 0x0D], [CHR 0x20],
      [CHR 0xC2, CHR 0x85], [CHR 0xC2, CHR 0xA0], [CHR 0xE1, CHR 0x9A, CHR 0x80],
      [CHR 0xE2, CHR 0x80, CHR 0x80], [CHR 0xE2, CHR 0x80, CHR 0x81],
      [CHR 0xE2, CHR 0x80, CHR 0x82], [CHR 0xE2, CHR 0x80, CHR 0x83],
      [CHR 0xE2, CHR 0x80, CHR 0x84], [CHR 0xE2, CHR 0x80, CHR 0x85],
      [CHR 0xE2, CHR 0x80, CHR 0x86], [CHR 0xE2, CHR 0x80, CHR 0x87],
      [CHR 0xE2, CHR 0x80, CHR 0x88], [CHR 0xE2, CHR 0x80, CHR 0x89],
      [CHR 0xE2, CHR 0x80, CHR 0x8A], [CHR 0xE2, CHR 0x80, CHR 0xA8],
      [CHR 0xE2, CHR 0x80, CHR 0xA9], [CHR 0xE2, CHR 0x80, CHR 0xAF],
      [CHR 0xE2, CHR 0x81, CHR 0x9F], [CHR 0xE3, CHR 0x80, CHR 0x80]]"

definition spaceAt :: "string list \<Rightarrow> string \<Rightarrow> nat" where
  "spaceAt runes s = (case find (\<lambda>e. take (length e) s = e) runes of None \<Rightarrow> 0 | Some e \<Rightarrow> length e)"

lemma spaceAt_le: "spaceAt runes s \<le> length s"
proof (cases "find (\<lambda>e. take (length e) s = e) runes")
  case None
  then show ?thesis by (simp add: spaceAt_def)
next
  case (Some e)
  then have "take (length e) s = e" by (auto simp: find_Some_iff)
  then have "length (take (length e) s) = length e" by simp
  then have "length e \<le> length s" by simp
  with Some show ?thesis by (simp add: spaceAt_def)
qed

function trimLeft :: "string list \<Rightarrow> string \<Rightarrow> string" where
  "trimLeft runes s =
     (if spaceAt runes s = 0 then s else trimLeft runes (drop (spaceAt runes s) s))"
  by pat_completeness auto
termination
proof (relation "measure (\<lambda>(runes, s). length s)")
  fix runes :: "string list" and s :: string
  assume "spaceAt runes s \<noteq> 0"
  with spaceAt_le [of runes s]
  show "((runes, drop (spaceAt runes s) s), (runes, s)) \<in> measure (\<lambda>(runes, s). length s)"
    by simp
qed simp

declare trimLeft.simps [simp del]

definition TrimSpace :: "string \<Rightarrow> string" where
  "TrimSpace s = rev (trimLeft (map rev spaceRunes) (rev (trimLeft spaceRunes s)))"

text \<open>\<^verbatim>\<open>strconv.ParseBool\<close>: \<open>None\<close> is its syntax error.\<close>

definition ParseBool :: "string \<Rightarrow> bool option" where
  "ParseBool s =
     (if s \<in> set [''1'', ''t'', ''T'', ''TRUE'', ''true'', ''True''] then Some True
      else if s \<in> set [''0'', ''f'', ''F'', ''FALSE'', ''false'', ''False''] then Some False
      else None)"

definition isTrue :: "string \<Rightarrow> bool" where
  "isTrue s = (case ParseBool s of None \<Rightarrow> False | Some b \<Rightarrow> b)"

definition isFalse :: "string \<Rightarrow> bool" where
  "isFalse s = (case ParseBool s of None \<Rightarrow> False | Some b \<Rightarrow> \<not> b)"


section \<open>Regular expressions\<close>

text \<open>
  The two patterns of the source use a character range, its negation, \<open>+\<close>, concatenation,
  alternation and capture groups.  \<open>matches r s\<close> lists the ways \<open>r\<close> matches a prefix of \<open>s\<close>,
  each with its captured groups and the rest of \<open>s\<close>, in the order of preference of Go's
  \<^verbatim>\<open>regexp\<close>: \<open>+\<close> is greedy, and the left branch of an alternation comes first.  The head
  of the list is the match Go reports at that position.  A class matches one byte: the
  bytes of a rune outside ASCII are all outside \<open>A-Z\<close>, and both patterns only meet them
  under a greedy \<open>[^A-Z]+\<close> that ends the pattern.
\<close>

datatype regexp =
    Range char char
  | NotRange char char
  | Plus regexp
  | Concat regexp regexp
  | Alternate regexp regexp
  | Capture regexp

definition inRange :: "char \<Rightarrow> char \<Rightarrow> char \<Rightarrow> bool" where
  "inRange a b c = (byte a \<le> byte c \<and> byte c \<le> byte b)"

fun matches :: "regexp \<Rightarrow> string \<Rightarrow> (string list \<times> string) list" where
  "matches (Range a b) s =
     (case s of [] \<Rightarrow> [] | c # cs \<Rightarrow> if inRange a b c then [([], cs)] else [])"
| "matches (NotRange a b) s =
     (case s of [] \<Rightarrow> [] | c # cs \<Rightarrow> if inRange a b c then [] else [([], cs)])"
| "matches (Plus r) s =
     concat (map (\<lambda>(g1, s1).
          (if length s1 < length s
           then map (\<lambda>(g2, s2). (if g2 = [] then g1 else g2, s2)) (matches (Plus r) s1)
           else []) @ [(g1, s1)])
        (matches r s))"
| "matches (Concat r1 r2) s =
     concat (map (\<lambda>(g1, s1). map (\<lambda>(g2, s2). (g1 @ g2, s2)) (matches r2 s1)) (matches r1 s))"
| "matches (Alternate r1 r2) s = matches r1 s @ matches r2 s"
| "matches (Capture r) s =
     map (\<lambda>(g, s1). (take (length s - length s1) s # g, s1)) (matches r s)"

text \<open>
  \<^verbatim>\<open>FindStringSubmatch\<close>: the leftmost match, as the whole match followed by the groups;
  \<open>None\<close> is Go's nil slice.
\<close>

fun FindStringSubmatch :: "regexp \<Rightarrow> string \<Rightarrow> string list option" where
  "FindStringSubmatch r s =
     (case matches r s of
        (g, s1) # _ \<Rightarrow> Some (take (length s - length s1) s # g)
      | [] \<Rightarrow> (case s of [] \<Rightarrow> None | c # cs \<Rightarrow> FindStringSubmatch r cs))"

declare FindStringSubmatch.simps [simp del]

text \<open>
  \<^verbatim>\<open>FindAllStringSubmatch(s, -1)\<close>: the successive matches that do not overlap.  After a
  match that consumed nothing the search moves on by one byte (neither pattern of the
  source matches the empty string).
\<close>

function FindAllStringSubmatch :: "regexp \<Rightarrow> string \<Rightarrow> string list list" where
  "FindAllStringSubmatch r s =
     (case matches r s of
        (g, s1) # _ \<Rightarrow>
          (take (length s - length s1) s # g) #
          (if length s1 < length s then FindAllStringSubmatch r s1
           else (case s of [] \<Rightarrow> [] | c # cs \<Rightarrow> FindAllStringSubmatch r cs))
      | [] \<Rightarrow> (case s of [] \<Rightarrow> [] | c # cs \<Rightarrow> FindAllStringSubmatch r cs))"
  by pat_completeness auto
termination
  by (relation "measure (\<lambda>(r, s). length s)") auto

declare FindAllStringSubmatch.simps [simp del]

text \<open>Lines 23 to 26: \<^verbatim>\<open>([^A-Z]+|[A-Z]+[^A-Z]+|[A-Z]+)\<close> and \<^verbatim>\<open>([A-Z]+)([A-Z][^A-Z]+)\<close>.\<close>

definition gatherRegexp :: regexp where
  "gatherRegexp =
     Capture (Alternate (Plus (NotRange CHR ''A'' CHR ''Z''))
       (Alternate (Concat (Plus (Range CHR ''A'' CHR ''Z'')) (Plus (NotRange CHR ''A'' CHR ''Z'')))
          (Plus (Range CHR ''A'' CHR ''Z''))))"

definition acronymRegexp :: regexp where
  "acronymRegexp =
     Concat (Capture (Plus (Range CHR ''A'' CHR ''Z'')))
       (Capture (Concat (Range CHR ''A'' CHR ''Z'') (Plus (NotRange CHR ''A'' CHR ''Z''))))"


section \<open>Types and values of the reflection interface\<close>

text \<open>
  \<^verbatim>\<open>envconfig.go\<close> reaches the specification through \<^verbatim>\<open>reflect\<close>: a
  \<^verbatim>\<open>reflect.Type\<close> is a \<open>typ\<close>, its \<^verbatim>\<open>Kind()\<close> a \<open>kind\<close>, and the contents of a
  \<^verbatim>\<open>reflect.Value\<close> a \<open>val\<close>.  Types are finite trees: a struct type that contains itself
  through a pointer, on which \<^verbatim>\<open>gatherInfo\<close> does not return, has no \<open>typ\<close>.
  \<open>Basic k\<close> is a type with no component this file looks at (\<open>k\<close> is one of the kinds
  other than pointer, slice, map and struct); \<open>Named p n t\<close> is the defined type \<open>n\<close> of
  package \<open>p\<close> with underlying type \<open>t\<close>.
\<close>

datatype kind =
    Invalid | Bool | IntKind | Int8 | Int16 | Int32 | Int64
  | Uint | Uint8 | Uint16 | Uint32 | Uint64 | Uintptr
  | Float32 | Float64 | Complex64 | Complex128
  | Array | Chan | Func | Interface | Map | Ptr | Slice | String | Struct | UnsafePointer

datatype rtype =
    Basic kind
  | PtrTo rtype
  | SliceOf rtype
  | MapOf rtype rtype
  | StructOf "StructField list"
  | Named string string rtype
and StructField =
  StructField (FName: string) (Type: rtype) (Tag: "(string \<times> string) list")
    (Anonymous: bool) (Exported: bool)

text \<open>\<^verbatim>\<open>StructTag.Get\<close>: the value of the first entry for the key, or the empty string.\<close>

definition Get :: "(string \<times> string) list \<Rightarrow> string \<Rightarrow> string" where
  "Get tag k = (case map_of tag k of None \<Rightarrow> [] | Some v \<Rightarrow> v)"

fun Kind :: "rtype \<Rightarrow> kind" where
  "Kind (Basic k) = (if k \<in> {Ptr, Slice, Map, Struct} then Invalid else k)"
| "Kind (PtrTo t) = Ptr"
| "Kind (SliceOf t) = Slice"
| "Kind (MapOf k t) = Map"
| "Kind (StructOf fs) = Struct"
| "Kind (Named p n t) = Kind t"

text \<open>\<^verbatim>\<open>Type.Elem()\<close> of a pointer, slice or map type, \<^verbatim>\<open>Type.Key()\<close> of a map type.\<close>

fun Elem :: "rtype \<Rightarrow> rtype" where
  "Elem (PtrTo t) = t"
| "Elem (SliceOf t) = t"
| "Elem (MapOf k t) = t"
| "Elem (Named p n t) = Elem t"
| "Elem t = t"

fun Key_of :: "rtype \<Rightarrow> rtype" where
  "Key_of (MapOf k t) = k"
| "Key_of (Named p n t) = Key_of t"
| "Key_of t = t"

fun Fields :: "rtype \<Rightarrow> StructField list" where
  "Fields (StructOf fs) = fs"
| "Fields (Named p n t) = Fields t"
| "Fields t = []"

fun PkgPath :: "rtype \<Rightarrow> string" where
  "PkgPath (Named p n t) = p"
| "PkgPath t = []"

definition kindName :: "kind \<Rightarrow> string" where
  "kindName k =
     (case k of Bool \<Rightarrow> ''bool'' | IntKind \<Rightarrow> ''int'' | Int8 \<Rightarrow> ''int8'' | Int16 \<Rightarrow> ''int16''
      | Int32 \<Rightarrow> ''int32'' | Int64 \<Rightarrow> ''int64'' | Uint \<Rightarrow> ''uint'' | Uint8 \<Rightarrow> ''uint8''
      | Uint16 \<Rightarrow> ''uint16'' | Uint32 \<Rightarrow> ''uint32'' | Uint64 \<Rightarrow> ''uint64''
      | Uintptr \<Rightarrow> ''uintptr'' | Float32 \<Rightarrow> ''float32'' | Float64 \<Rightarrow> ''float64''
      | Complex64 \<Rightarrow> ''complex64'' | Complex128 \<Rightarrow> ''complex128'' | String \<Rightarrow> ''string''
      | _ \<Rightarrow> [])"

fun TypeName :: "rtype \<Rightarrow> string" where
  "TypeName (Named p n t) = n"
| "TypeName (Basic k) = kindName k"
| "TypeName t = []"

text \<open>\<^verbatim>\<open>Type.Bits()\<close> of the numeric kinds; \<^verbatim>\<open>int\<close> and \<^verbatim>\<open>uint\<close> have 64 bits here.\<close>

definition Bits :: "rtype \<Rightarrow> nat" where
  "Bits t =
     (case Kind t of Int8 \<Rightarrow> 8 | Uint8 \<Rightarrow> 8 | Int16 \<Rightarrow> 16 | Uint16 \<Rightarrow> 16
      | Int32 \<Rightarrow> 32 | Uint32 \<Rightarrow> 32 | Float32 \<Rightarrow> 32 | _ \<Rightarrow> 64)"

text \<open>
  Values.  \<open>VNil\<close> is the nil pointer, slice, map, channel, function or interface;
  \<open>VPtr v\<close> is a pointer to a variable that holds \<open>v\<close>.  A float is its IEEE 754 bit
  pattern as a \<^verbatim>\<open>float64\<close>.  A map is the list of its entries in the order the keys were
  first inserted.  \<open>VOther\<close> stands for the values of the kinds that \<^verbatim>\<open>processField\<close> has
  no case for (arrays, complex numbers, channels, functions, non-nil interfaces).
\<close>

datatype val =
    VBool bool
  | VInt int
  | VUint nat
  | VFloat "64 word"
  | VString string
  | VNil
  | VPtr val
  | VSlice "val list"
  | VMap "(val \<times> val) list"
  | VStruct "val list"
  | VOther string

text \<open>The zero value of a type (\<^verbatim>\<open>reflect.Zero\<close>, and what \<^verbatim>\<open>reflect.New\<close> points to).\<close>

fun zero :: "rtype \<Rightarrow> val" and zeroField :: "StructField \<Rightarrow> val" where
  "zero (Basic k) =
     (if k = Bool then VBool False
      else if k \<in> {IntKind, Int8, Int16, Int32, Int64} then VInt 0
      else if k \<in> {Uint, Uint8, Uint16, Uint32, Uint64, Uintptr} then VUint 0
      else if k \<in> {Float32, Float64} then VFloat 0
      else if k = String then VString []
      else if k \<in> {Complex64, Complex128, Array} then VOther []
      else VNil)"
| "zero (PtrTo t) = VNil"
| "zero (SliceOf t) = VNil"
| "zero (MapOf k t) = VNil"
| "zero (StructOf fs) = VStruct (map zeroField fs)"
| "zero (Named p n t) = zero t"
| "zeroField (StructField n t tg a e) = zero t"

text \<open>\<^verbatim>\<open>Value.IsNil()\<close> and \<^verbatim>\<open>Value.Elem()\<close> of a pointer.\<close>

definition IsNil :: "val \<Rightarrow> bool" where
  "IsNil v = (v = VNil)"

fun ElemV :: "val \<Rightarrow> val" where
  "ElemV (VPtr v) = v"
| "ElemV v = v"


section \<open>Errors and the collaborators outside the file\<close>

text \<open>
  Every error value the file makes or passes on.  \<open>ParseError\<close> carries the type whose
  \<^verbatim>\<open>String()\<close> is the \<^verbatim>\<open>TypeName\<close> of the source.  \<open>NumError f s\<close> is the syntax error of
  a \<^verbatim>\<open>strconv\<close> function \<open>f\<close> on input \<open>s\<close>; \<open>External\<close> is an error made by a library
  parser or by a method of the user; \<open>Panic\<close> is a run-time panic, which no caller in the
  file recovers.
\<close>

datatype err =
    ErrInvalidSpecification
  | RequiredKeyMissing string
  | InvalidMapItem string
  | ParseError (KeyName: string) (FieldName: string) (TypeOf: rtype) (Value: string) (Err: err)
  | MultipleErrors "err list"
  | NumError string string
  | External string
  | Panic string

text \<open>
  What the file calls and does not define: the numeric parsers of \<^verbatim>\<open>strconv\<close> and
  \<^verbatim>\<open>time\<close>, the methods \<^verbatim>\<open>Decode\<close>, \<^verbatim>\<open>Set\<close>, \<^verbatim>\<open>UnmarshalText\<close> and
  \<^verbatim>\<open>UnmarshalBinary\<close> of the user's types.  A method takes the string
  and the variable it is called on, and gives the variable's new contents and its error.
  \<open>decoderFrom X t\<close> is the method that \<^verbatim>\<open>decoderFrom(field)\<close> finds for a field of type
  \<open>t\<close>: every field the file looks at is addressable and can be interfaced, so whether the
  interface is found (on the value or on its address) depends on the type alone.
\<close>

type_synonym converter = "string \<Rightarrow> val \<Rightarrow> val \<times> err option"

record ext =
  ParseInt :: "string \<Rightarrow> nat \<Rightarrow> nat \<Rightarrow> err + int"
  ParseUint :: "string \<Rightarrow> nat \<Rightarrow> nat \<Rightarrow> err + nat"
  ParseFloat :: "string \<Rightarrow> nat \<Rightarrow> err + 64 word"
  ParseDuration :: "string \<Rightarrow> err + int"
  decoderFrom :: "rtype \<Rightarrow> converter option"
  setterFrom :: "rtype \<Rightarrow> converter option"
  textUnmarshaler :: "rtype \<Rightarrow> converter option"
  binaryUnmarshaler :: "rtype \<Rightarrow> converter option"

section \<open>processField (lines 303 to 411)\<close>

text \<open>
  \<^verbatim>\<open>Value.SetInt\<close> and \<^verbatim>\<open>Value.SetUint\<close> store the low bits of their argument in a
  variable of the kind's width.
\<close>

definition SetInt :: "nat \<Rightarrow> int \<Rightarrow> val" where
  "SetInt bits x = VInt ((x + 2 ^ (bits - 1)) mod 2 ^ bits - 2 ^ (bits - 1))"

definition SetUint :: "nat \<Rightarrow> nat \<Rightarrow> val" where
  "SetUint bits x = VUint (x mod 2 ^ bits)"

text \<open>
  Equality of map keys (Go's \<open>==\<close>): floats compare as IEEE 754 numbers (a NaN differs
  from itself, the two zeros are equal), structs field by field.  Two non-nil pointers
  are different here: every pointer key \<^verbatim>\<open>processField\<close> builds comes from its own
  \<^verbatim>\<open>reflect.New\<close>.  Slices and maps are no key types.
\<close>

definition isNaN :: "64 word \<Rightarrow> bool" where
  "isNaN w = (0x7FF0000000000000 < (w AND 0x7FFFFFFFFFFFFFFF))"

definition isZero :: "64 word \<Rightarrow> bool" where
  "isZero w = (w AND 0x7FFFFFFFFFFFFFFF = 0)"

fun keyEq :: "val \<Rightarrow> val \<Rightarrow> bool" where
  "keyEq (VFloat a) (VFloat b) = (\<not> isNaN a \<and> \<not> isNaN b \<and> (a = b \<or> isZero a \<and> isZero b))"
| "keyEq (VPtr a) b = False"
| "keyEq (VSlice a) b = False"
| "keyEq (VMap a) b = False"
| "keyEq (VStruct as) (VStruct bs) = list_all2 keyEq as bs"
| "keyEq a b = (a = b)"

text \<open>\<^verbatim>\<open>Value.SetMapIndex\<close>: the entry of an equal key is overwritten, else one is added.\<close>

fun SetMapIndex :: "(val \<times> val) list \<Rightarrow> val \<Rightarrow> val \<Rightarrow> (val \<times> val) list" where
  "SetMapIndex [] k v = [(k, v)]"
| "SetMapIndex ((k1, v1) # mp) k v =
     (if keyEq k1 k then (k1, v) # mp else (k1, v1) # SetMapIndex mp k v)"

text \<open>The loop of lines 377 to 382, over the pieces of the value.\<close>

fun sliceLoop :: "(string \<Rightarrow> val \<times> err option) \<Rightarrow> string list \<Rightarrow> err + val list" where
  "sliceLoop f [] = Inr []"
| "sliceLoop f (v # vals) =
     (case f v of
        (x, Some e) \<Rightarrow> Inl e
      | (x, None) \<Rightarrow> (case sliceLoop f vals of Inl e \<Rightarrow> Inl e | Inr xs \<Rightarrow> Inr (x # xs)))"

text \<open>The loop of lines 389 to 405, over the pairs of the value.\<close>

fun mapLoop ::
  "(string \<Rightarrow> val \<times> err option) \<Rightarrow> (string \<Rightarrow> val \<times> err option) \<Rightarrow>
   string list \<Rightarrow> (val \<times> val) list \<Rightarrow> err + (val \<times> val) list" where
  "mapLoop fk fv [] mp = Inr mp"
| "mapLoop fk fv (pair # pairs) mp =
     (let kvpair = Split pair CHR '':'' in
      if length kvpair \<noteq> 2 then Inl (InvalidMapItem pair)
      else (case fk (kvpair ! 0) of
              (k, Some e) \<Rightarrow> Inl e
            | (k, None) \<Rightarrow>
                (case fv (kvpair ! 1) of
                   (v, Some e) \<Rightarrow> Inl e
                 | (v, None) \<Rightarrow> mapLoop fk fv pairs (SetMapIndex mp k v))))"

lemma size_Elem: "Kind t \<in> {Ptr, Slice, Map} \<Longrightarrow> size (Elem t) < size t"
  by (induction t rule: Elem.induct) (auto split: if_splits)

lemma size_Key_of: "Kind t = Map \<Longrightarrow> size (Key_of t) < size t"
  by (induction t rule: Key_of.induct) (auto split: if_splits)

lemma size_Elem2: "Kind t \<in> {Ptr, Slice, Map} \<Longrightarrow> Suc (2 * size (Elem t)) < 2 * size t"
  using size_Elem [of t] by simp

lemma size_Key_of2: "Kind t = Map \<Longrightarrow> Suc (2 * size (Key_of t)) < 2 * size t"
  using size_Key_of [of t] by simp

lemma size_Elem_Elem2:
  "Kind t = Ptr \<Longrightarrow> Kind (Elem t) \<in> {Slice, Map} \<Longrightarrow> Suc (2 * size (Elem (Elem t))) < 2 * size t"
  using size_Elem [of t] size_Elem [of "Elem t"] by auto

lemma size_Key_of_Elem2:
  "Kind t = Ptr \<Longrightarrow> Kind (Elem t) = Map \<Longrightarrow> Suc (2 * size (Key_of (Elem t))) < 2 * size t"
  using size_Elem [of t] size_Key_of [of "Elem t"] by auto

text \<open>
  \<open>processField X value t field\<close> is the call on a \<^verbatim>\<open>reflect.Value\<close> of type \<open>t\<close> that
  holds \<open>field\<close>; it returns what the variable holds afterwards, and the error.
  \<open>coerceByKind\<close> is the part of the function after the four interfaces, lines 324 to
  410: the pointer step and the switch on the kind.
\<close>

function processField :: "ext \<Rightarrow> string \<Rightarrow> rtype \<Rightarrow> val \<Rightarrow> val \<times> err option"
  and coerceByKind :: "ext \<Rightarrow> string \<Rightarrow> rtype \<Rightarrow> val \<Rightarrow> val \<times> err option" where
  "processField X value t field =
     (case decoderFrom X t of Some decoder \<Rightarrow> decoder value field | None \<Rightarrow>
      (case setterFrom X t of Some setter \<Rightarrow> setter value field | None \<Rightarrow>
      (case textUnmarshaler X t of Some u \<Rightarrow> u value field | None \<Rightarrow>
      (case binaryUnmarshaler X t of Some b \<Rightarrow> b value field | None \<Rightarrow>
         coerceByKind X value t field))))"
| "coerceByKind X value t field =
     (let isPtr = (Kind t = Ptr);
          typ = (if isPtr then Elem t else t);
          fld = (if isPtr then (if IsNil field then zero typ else ElemV field) else field);
          (fld', e) =
            (if Kind typ = String then (VString value, None)
             else if Kind typ \<in> {IntKind, Int8, Int16, Int32, Int64} then
               (case (if Kind typ = Int64 \<and> PkgPath typ = ''time'' \<and> TypeName typ = ''Duration''
                      then ParseDuration X value else ParseInt X value 0 (Bits typ)) of
                  Inl e \<Rightarrow> (fld, Some e)
                | Inr x \<Rightarrow> (SetInt (Bits typ) x, None))
             else if Kind typ \<in> {Uint, Uint8, Uint16, Uint32, Uint64} then
               (case ParseUint X value 0 (Bits typ) of
                  Inl e \<Rightarrow> (fld, Some e)
                | Inr x \<Rightarrow> (SetUint (Bits typ) x, None))
             else if Kind typ = Bool then
               (case ParseBool value of
                  None \<Rightarrow> (fld, Some (NumError ''ParseBool'' value))
                | Some b \<Rightarrow> (VBool b, None))
             else if Kind typ \<in> {Float32, Float64} then
               (case ParseFloat X value (Bits typ) of
                  Inl e \<Rightarrow> (fld, Some e)
                | Inr x \<Rightarrow> (VFloat x, None))
             else if Kind typ = Slice then
               (if Kind (Elem typ) = Uint8 then
                  (if Elem typ = Basic Uint8
                   then (VSlice (map (\<lambda>c. VUint (byte c)) value), None)
                   else (fld, Some (Panic ''reflect.Set: value of type []uint8 is not assignable'')))
                else if length (TrimSpace value) \<noteq> 0 then
                  (case sliceLoop (\<lambda>v. processField X v (Elem typ) (zero (Elem typ)))
                          (Split value CHR '','') of
                     Inl e \<Rightarrow> (fld, Some e)
                   | Inr sl \<Rightarrow> (VSlice sl, None))
                else (VSlice [], None))
             else if Kind typ = Map then
               (if length (TrimSpace value) \<noteq> 0 then
                  (case mapLoop (\<lambda>k. processField X k (Key_of typ) (zero (Key_of typ)))
                          (\<lambda>v. processField X v (Elem typ) (zero (Elem typ)))
                          (Split value CHR '','') [] of
                     Inl e \<Rightarrow> (fld, Some e)
                   | Inr mp \<Rightarrow> (VMap mp, None))
                else (VMap [], None))
             else (fld, None))
      in (if isPtr then VPtr fld' else fld', e))"
  by pat_completeness auto
termination
  by (relation "measure (\<lambda>x. case x of
          Inl (X, value, t, field) \<Rightarrow> 2 * size t + 1
        | Inr (X, value, t, field) \<Rightarrow> 2 * size t)")
     (auto simp: size_Elem2 size_Key_of2 size_Elem_Elem2 size_Key_of_Elem2)

declare processField.simps [simp del] coerceByKind.simps [simp del]


section \<open>gatherInfo (lines 61 to 162)\<close>

record Options =
  SplitWords :: bool
  Required :: bool
  ParallelExcecution :: bool

text \<open>
  The \<^verbatim>\<open>Field\<close> of a \<^verbatim>\<open>varInfo\<close> is a handle on a variable inside the specification.
  Here it is the way to that variable from the struct the specification points to
  (\<open>Field\<close>: which field of a struct, or through a pointer) and the variable's type
  (\<open>FieldType\<close>).
\<close>

datatype step = FieldAt nat | Deref

record varInfo =
  Name :: string
  Alt :: string
  Key :: string
  Field :: "step list"
  FieldType :: rtype
  Tags :: "(string \<times> string) list"

text \<open>
  Lines 92 to 102: follow the pointers of a field, giving a nil pointer to a struct a
  zero struct to point to, and stopping at a nil pointer to anything else.  The result
  is the number of pointers followed and the type and contents of the variable reached;
  the field itself then holds that many pointers (\<open>nest\<close>) to that variable.
\<close>

function ptrLoop :: "rtype \<Rightarrow> val \<Rightarrow> nat \<times> rtype \<times> val" where
  "ptrLoop t f =
     (if Kind t = Ptr then
        (if IsNil f then
           (if Kind (Elem t) \<noteq> Struct then (0, t, f)
            else (case ptrLoop (Elem t) (zero (Elem t)) of (n, t', f') \<Rightarrow> (Suc n, t', f')))
         else (case ptrLoop (Elem t) (ElemV f) of (n, t', f') \<Rightarrow> (Suc n, t', f')))
      else (0, t, f))"
  by pat_completeness auto
termination
  by (relation "measure (\<lambda>(t, f). size t)") (auto simp: size_Elem)

declare ptrLoop.simps [simp del]

fun nest :: "nat \<Rightarrow> val \<Rightarrow> val" where
  "nest 0 v = v"
| "nest (Suc n) v = VPtr (nest n v)"

text \<open>Lines 119 to 131: the key of a field name whose words are split.\<close>

definition splitName :: "string \<Rightarrow> string" where
  "splitName name =
     (let words = FindAllStringSubmatch gatherRegexp name in
      if length words > 0 then
        Join (concat (map (\<lambda>words.
               (case FindStringSubmatch acronymRegexp (words ! 0) of
                  None \<Rightarrow> [words ! 0]
                | Some m \<Rightarrow> if length m = 3 then [m ! 1, m ! 2] else [words ! 0]))
             words)) ''_''
      else name)"

text \<open>Lines 109 to 139: the key of a field under a prefix.\<close>

definition fieldKey :: "string \<Rightarrow> Options \<Rightarrow> StructField \<Rightarrow> string" where
  "fieldKey prefix options ftype =
     (let alt = ToUpper (Get (Tag ftype) ''envconfig'');
          tagSplitWords = Get (Tag ftype) ''split_words'';
          key1 = (if isTrue tagSplitWords \<or> SplitWords options \<and> \<not> isFalse tagSplitWords
                  then splitName (FName ftype) else FName ftype);
          key2 = (if alt \<noteq> [] then alt else key1);
          key3 = (if prefix \<noteq> [] then prefix @ ''_'' @ key2 else key2)
      in ToUpper key3)"

text \<open>Line 144: the type has none of the four interfaces.\<close>

definition noInterface :: "ext \<Rightarrow> rtype \<Rightarrow> bool" where
  "noInterface X t =
     (decoderFrom X t = None \<and> setterFrom X t = None \<and>
      textUnmarshaler X t = None \<and> binaryUnmarshaler X t = None)"

fun StructFields :: "val \<Rightarrow> val list" where
  "StructFields (VStruct fs) = fs"
| "StructFields v = []"

lemma size_Fields: "Kind t = Struct \<Longrightarrow> size_list size (Fields t) < size t"
  by (induction t rule: Fields.induct) (auto split: if_splits)

lemma size_ptrLoop: "size (fst (snd (ptrLoop t f))) \<le> size t"
proof (induction t f rule: ptrLoop.induct)
  case (1 t f)
  show ?case
  proof (cases "Kind t = Ptr")
    case False
    then show ?thesis by (simp add: ptrLoop.simps [of t f])
  next
    case True
    then have lt: "size (Elem t) < size t" by (simp add: size_Elem)
    show ?thesis
    proof (cases "IsNil f")
      case nil: True
      show ?thesis
      proof (cases "Kind (Elem t) = Struct")
        case True
        have "size (fst (snd (ptrLoop (Elem t) (zero (Elem t))))) \<le> size (Elem t)"
          by (rule "1.IH"(1) [OF \<open>Kind t = Ptr\<close> nil]) (simp add: True)
        with lt \<open>Kind t = Ptr\<close> nil True show ?thesis
          by (auto simp: ptrLoop.simps [of t f] split: prod.splits)
      next
        case False
        with \<open>Kind t = Ptr\<close> nil show ?thesis by (simp add: ptrLoop.simps [of t f])
      qed
    next
      case False
      have "size (fst (snd (ptrLoop (Elem t) (ElemV f)))) \<le> size (Elem t)"
        by (rule "1.IH"(2) [OF \<open>Kind t = Ptr\<close> False])
      with lt \<open>Kind t = Ptr\<close> False show ?thesis
        by (auto simp: ptrLoop.simps [of t f] split: prod.splits)
    qed
  qed
qed

text \<open>
  \<open>gatherInfo X prefix t spec options\<close> is the call on a specification of dynamic type \<open>t\<close>
  and contents \<open>spec\<close>.  It returns the descriptors and what the specification holds
  afterwards (line 99 writes to it).  \<open>gatherFields\<close> is the loop of lines 85 to 160 from
  field \<open>i\<close> on, over the declarations and the contents of the remaining fields.  The
  descriptors of a nested struct come back as ways from that struct, and are continued
  from the way to it.
\<close>

function gatherInfo :: "ext \<Rightarrow> string \<Rightarrow> rtype \<Rightarrow> val \<Rightarrow> Options \<Rightarrow> err + (varInfo list \<times> val)"
  and gatherFields ::
    "ext \<Rightarrow> string \<Rightarrow> Options \<Rightarrow> nat \<Rightarrow> StructField list \<Rightarrow> val list \<Rightarrow>
     err + (varInfo list \<times> val list)" where
  "gatherInfo X prefix t spec options =
     (if Kind t \<noteq> Ptr then Inl ErrInvalidSpecification
      else if IsNil spec then Inl ErrInvalidSpecification
      else if Kind (Elem t) \<noteq> Struct then Inl ErrInvalidSpecification
      else (case gatherFields X prefix options 0 (Fields (Elem t)) (StructFields (ElemV spec)) of
              Inl e \<Rightarrow> Inl e
            | Inr (infos, fs) \<Rightarrow> Inr (infos, VPtr (VStruct fs))))"
| "gatherFields X prefix options i [] fs = Inr ([], fs)"
| "gatherFields X prefix options i (ftype # ftypes) [] = Inr ([], [])"
| "gatherFields X prefix options i (ftype # ftypes) (f # fs) =
     (if \<not> Exported ftype \<or> isTrue (Get (Tag ftype) ''ignored'') then
        (case gatherFields X prefix options (Suc i) ftypes fs of
           Inl e \<Rightarrow> Inl e
         | Inr (infos, fs') \<Rightarrow> Inr (infos, f # fs'))
      else
        (case ptrLoop (Type ftype) f of (n, t', f') \<Rightarrow>
          (let info = \<lparr>Name = FName ftype,
                       Alt = ToUpper (Get (Tag ftype) ''envconfig''),
                       Key = fieldKey prefix options ftype,
                       Field = FieldAt i # replicate n Deref,
                       FieldType = t',
                       Tags = Tag ftype\<rparr>
           in if Kind t' = Struct \<and> noInterface X t' then
                (case gatherInfo X (if \<not> Anonymous ftype then Key info else prefix)
                        (PtrTo t') (VPtr f') options of
                   Inl e \<Rightarrow> Inl e
                 | Inr (embeddedInfos, embedded) \<Rightarrow>
                     (case gatherFields X prefix options (Suc i) ftypes fs of
                        Inl e \<Rightarrow> Inl e
                      | Inr (infos, fs') \<Rightarrow>
                          Inr (map (\<lambda>e. e\<lparr>Field := Field info @ Field e\<rparr>) embeddedInfos @ infos,
                               nest n (ElemV embedded) # fs')))
              else
                (case gatherFields X prefix options (Suc i) ftypes fs of
                   Inl e \<Rightarrow> Inl e
                 | Inr (infos, fs') \<Rightarrow> Inr (info # infos, nest n f' # fs')))))"
  by pat_completeness auto
termination
proof (relation "measure (\<lambda>x. case x of
          Inl (X, prefix, t, spec, options) \<Rightarrow> 2 * size t
        | Inr (X, prefix, options, i, ftypes, fs) \<Rightarrow> 2 * size_list size ftypes + 1)",
    goal_cases)
  case 1
  show ?case by simp
next
  case (2 X prefix t spec options)
  then show ?case
    using size_Fields [of "Elem t"] size_Elem [of t] by simp
next
  case 3
  show ?case by simp
next
  case (4 X prefix options i ftype ftypes f fs n r t' f' info)
  then have "t' = fst (snd (ptrLoop (Type ftype) f))"
    by (metis fst_conv snd_conv)
  then show ?case
    using size_ptrLoop [of "Type ftype" f] by (cases ftype) simp
next
  case 5
  show ?case by simp
next
  case 6
  show ?case by simp
qed

declare gatherInfo.simps [simp del]


section \<open>processInfo and ProcessWithOptions (lines 205 to 289)\<close>

text \<open>Reading and writing the variable at the end of a way into a struct.\<close>

fun getAt :: "step list \<Rightarrow> val \<Rightarrow> val option" where
  "getAt [] v = Some v"
| "getAt (FieldAt i # p) (VStruct fs) = (if i < length fs then getAt p (fs ! i) else None)"
| "getAt (Deref # p) (VPtr v) = getAt p v"
| "getAt p v = None"

fun setAt :: "step list \<Rightarrow> val \<Rightarrow> val \<Rightarrow> val" where
  "setAt [] x v = x"
| "setAt (FieldAt i # p) x (VStruct fs) =
     (if i < length fs then VStruct (fs[i := setAt p x (fs ! i)]) else VStruct fs)"
| "setAt (Deref # p) x (VPtr v) = VPtr (setAt p x v)"
| "setAt p x v = v"

text \<open>
  Modelled from the spec: \<^verbatim>\<open>lookupEnv\<close> is called in this file and defined in another
  one.  The spec gives the environment collaborator as \<^verbatim>\<open>lookup(key) -> (value, found)\<close>,
  which tells a name set to the empty string from a name that is not set.  The
  environment is a map from names to values; the call returns the value (empty when the
  name is not set) and whether the name is set.
\<close>

definition lookupEnv :: "(string \<rightharpoonup> string) \<Rightarrow> string \<Rightarrow> string \<times> bool" where
  "lookupEnv env k = (case env k of None \<Rightarrow> ([], False) | Some v \<Rightarrow> (v, True))"

text \<open>
  Lines 279 to 288, on the struct \<open>s\<close> that the specification points to: convert the value
  into the variable of the descriptor and wrap the error.  The result is what \<open>s\<close> holds
  afterwards, and the error.  A panic of \<^verbatim>\<open>processField\<close> is no returned error and is not
  wrapped.  The descriptors of \<^verbatim>\<open>gatherInfo\<close> all lead to a variable of the struct it
  returns (lemma \<open>gatherInfo_getAt\<close> at the end); for a way that leads nowhere, which a
  \<^verbatim>\<open>reflect.Value\<close> cannot be, the model panics.
\<close>

definition convertField :: "ext \<Rightarrow> varInfo \<Rightarrow> string \<Rightarrow> val \<Rightarrow> val \<times> err option" where
  "convertField X info value s =
     (case getAt (Field info) s of
        None \<Rightarrow> (s, Some (Panic ''reflect: call on zero Value''))
      | Some field \<Rightarrow>
          (case processField X value (FieldType info) field of
             (field', None) \<Rightarrow> (setAt (Field info) field' s, None)
           | (field', Some (Panic m)) \<Rightarrow> (setAt (Field info) field' s, Some (Panic m))
           | (field', Some e) \<Rightarrow>
               (setAt (Field info) field' s,
                Some (ParseError (Key info) (Name info) (FieldType info) value e))))"

definition processInfo ::
  "ext \<Rightarrow> (string \<rightharpoonup> string) \<Rightarrow> varInfo \<Rightarrow> Options \<Rightarrow> val \<Rightarrow> val \<times> err option" where
  "processInfo X env info options s =
     (let (value, ok) = lookupEnv env (Key info);
          (value, ok) = (if \<not> ok \<and> Alt info \<noteq> [] then lookupEnv env (Alt info) else (value, ok));
          def = Get (Tags info) ''default'';
          value = (if def \<noteq> [] \<and> \<not> ok then def else value);
          req = Get (Tags info) ''required''
      in if \<not> ok \<and> def = [] then
           (if isTrue req \<or> Required options \<and> \<not> isFalse req
            then (s, Some (RequiredKeyMissing (if Alt info \<noteq> [] then Alt info else Key info)))
            else (s, None))
         else convertField X info value s)"

text \<open>Lines 241 to 247: one descriptor after the other, until the first error.\<close>

fun processInfos ::
  "ext \<Rightarrow> (string \<rightharpoonup> string) \<Rightarrow> varInfo list \<Rightarrow> Options \<Rightarrow> val \<Rightarrow> val \<times> err option" where
  "processInfos X env [] options s = (s, None)"
| "processInfos X env (info # infos) options s =
     (case processInfo X env info options s of
        (s', Some e) \<Rightarrow> (s', Some e)
      | (s', None) \<Rightarrow> processInfos X env infos options s')"

text \<open>
  Lines 213 to 239 start one goroutine for each descriptor and wait for all of them.  The
  goroutines write to different variables, so they are modelled as running one after the
  other in some order, each to its end; the errors arrive on the channel in some order.
\<close>

fun processEach ::
  "ext \<Rightarrow> (string \<rightharpoonup> string) \<Rightarrow> varInfo list \<Rightarrow> Options \<Rightarrow> val \<Rightarrow> val \<times> err list" where
  "processEach X env [] options s = (s, [])"
| "processEach X env (info # infos) options s =
     (case processInfo X env info options s of
        (s', r) \<Rightarrow> (case processEach X env infos options s' of
                      (s'', allErrs) \<Rightarrow> (s'', (case r of None \<Rightarrow> [] | Some e \<Rightarrow> [e]) @ allErrs)))"

definition isPanic :: "err \<Rightarrow> bool" where
  "isPanic e = (case e of Panic m \<Rightarrow> True | _ \<Rightarrow> False)"

definition parallelOutcomes ::
  "ext \<Rightarrow> (string \<rightharpoonup> string) \<Rightarrow> varInfo list \<Rightarrow> Options \<Rightarrow> val \<Rightarrow> (val \<times> err option) set" where
  "parallelOutcomes X env infos options s =
     {(s', r). \<exists>order allErrs.
         mset order = mset infos \<and>
         s' = fst (processEach X env order options s) \<and>
         mset allErrs = mset (snd (processEach X env order options s)) \<and>
         (if allErrs = [] then r = None
          else if list_ex isPanic allErrs then (\<exists>e. r = Some e \<and> isPanic e \<and> e \<in> set allErrs)
          else r = Some (MultipleErrors allErrs))}"

text \<open>
  \<open>ProcessWithOptions X env prefix t spec options\<close> is the set of the possible results of
  the call on a specification of dynamic type \<open>t\<close> and contents \<open>spec\<close>, in the environment
  \<open>env\<close>: what the specification holds afterwards, and the error.  Without parallel execution there is one result.
\<close>

definition ProcessWithOptions ::
  "ext \<Rightarrow> (string \<rightharpoonup> string) \<Rightarrow> string \<Rightarrow> rtype \<Rightarrow> val \<Rightarrow> Options \<Rightarrow>
   (val \<times> err option) set" where
  "ProcessWithOptions X env prefix t spec options =
     (case gatherInfo X prefix t spec options of
        Inl e \<Rightarrow> {(spec, Some e)}
      | Inr (infos, spec') \<Rightarrow>
          (if ParallelExcecution options
           then (\<lambda>(s, r). (VPtr s, r)) ` parallelOutcomes X env infos options (ElemV spec')
           else {(case processInfos X env infos options (ElemV spec') of (s, r) \<Rightarrow> (VPtr s, r))}))"

section \<open>Collaborators for the examples\<close>

text \<open>
  For the examples: parsers of decimal numbers only and no method on any type
  (\<open>exampleExt\<close>), a method that records its name and its argument (\<open>tagged\<close>), a
  descriptor of an integer field, and the options all off.
\<close>

definition digitsOf :: "string \<Rightarrow> nat option" where
  "digitsOf s =
     (if s \<noteq> [] \<and> list_all (\<lambda>c. 48 \<le> byte c \<and> byte c \<le> 57) s
      then Some (foldl (\<lambda>n c. 10 * n + (byte c - 48)) 0 s) else None)"

definition exampleExt :: ext where
  "exampleExt =
     \<lparr>ParseInt = (\<lambda>s base bits.
          (case digitsOf s of
             Some n \<Rightarrow> if n < 2 ^ (bits - 1) then Inr (int n) else Inl (NumError ''ParseInt'' s)
           | None \<Rightarrow> Inl (NumError ''ParseInt'' s))),
      ParseUint = (\<lambda>s base bits.
          (case digitsOf s of
             Some n \<Rightarrow> if n < 2 ^ bits then Inr n else Inl (NumError ''ParseUint'' s)
           | None \<Rightarrow> Inl (NumError ''ParseUint'' s))),
      ParseFloat = (\<lambda>s bits. Inl (NumError ''ParseFloat'' s)),
      ParseDuration = (\<lambda>s. Inl (External ''time: invalid duration'')),
      decoderFrom = (\<lambda>t. None),
      setterFrom = (\<lambda>t. None),
      textUnmarshaler = (\<lambda>t. None),
      binaryUnmarshaler = (\<lambda>t. None)\<rparr>"


definition tagged :: "string \<Rightarrow> converter" where
  "tagged name value field = (VString (name @ '':'' @ value), None)"

definition portInfo :: "(string \<times> string) list \<Rightarrow> string \<Rightarrow> varInfo" where
  "portInfo tags alt =
     \<lparr>Name = ''Port'', Alt = alt, Key = ''APP_PORT'', Field = [FieldAt 0],
      FieldType = Basic IntKind, Tags = tags\<rparr>"

definition noOptions :: Options where
  "noOptions = \<lparr>SplitWords = False, Required = False, ParallelExcecution = False\<rparr>"

section \<open>Conversion without an interface\<close>

lemma processField_noInterface:
  "noInterface X t \<Longrightarrow> processField X value t field = coerceByKind X value t field"
  by (simp add: processField.simps noInterface_def)

lemma noInterface_exampleExt: "noInterface exampleExt t"
  by (simp add: noInterface_def exampleExt_def)


text \<open>
  Claim C10.  A variable whose type has none of the four interfaces and whose kind has no
  case in the switch of \<^verbatim>\<open>processField\<close> and is no pointer (a struct, an array, a complex
  number, a channel, a function, an interface, a \<^verbatim>\<open>uintptr\<close>) is converted from any string
  without an error and keeps what it held: no error is made for such a type.
\<close>

theorem processField_unsupported_kind:
  assumes "noInterface X t"
    and "Kind t \<notin> {String, IntKind, Int8, Int16, Int32, Int64, Uint, Uint8, Uint16, Uint32, Uint64,
           Bool, Float32, Float64, Ptr, Slice, Map}"
  shows "processField X value t field = (field, None)"
  using assms by (simp add: processField_noInterface coerceByKind.simps)

theorem processField_unsupported_kind_witness:
  "noInterface exampleExt (Basic Complex128) \<and>
   processField exampleExt ''1+2i'' (Basic Complex128) (VOther ''0'') = (VOther ''0'', None) \<and>
   processField exampleExt ''x'' (StructOf [StructField ''A'' (Basic String) [] False True])
      (VStruct [VString ''a'']) = (VStruct [VString ''a''], None)"
  using processField_unsupported_kind [OF noInterface_exampleExt, of "Basic Complex128" "''1+2i''" "VOther ''0''"]
    processField_unsupported_kind [OF noInterface_exampleExt,
      of "StructOf [StructField ''A'' (Basic String) [] False True]" "''x''" "VStruct [VString ''a'']"]
  by (simp add: noInterface_exampleExt)



lemma TrimSpace_Nil: "TrimSpace [] = []"
  by (simp add: TrimSpace_def trimLeft.simps spaceAt_def spaceRunes_def)

lemma processField_example_int:
  "processField exampleExt ''8080'' (Basic IntKind) field = (VInt 8080, None)"
  unfolding processField_noInterface [OF noInterface_exampleExt]
  by (simp add: coerceByKind.simps exampleExt_def Bits_def SetInt_def digitsOf_def byte_def)

section \<open>The order of the interfaces\<close>

text \<open>
  Claim C5.  For every variable and every string, \<^verbatim>\<open>processField\<close> tries the interfaces of
  the variable's type in the order \<^verbatim>\<open>Decoder\<close>, \<^verbatim>\<open>Setter\<close>, \<^verbatim>\<open>TextUnmarshaler\<close>,
  \<^verbatim>\<open>BinaryUnmarshaler\<close>.  The first one the type has makes the whole result; the
  conversion by kind runs only when the type has none.
\<close>

theorem processField_interface_order:
  "(\<forall>decoder. decoderFrom X t = Some decoder \<longrightarrow> processField X value t field = decoder value field) \<and>
   (\<forall>setter. decoderFrom X t = None \<and> setterFrom X t = Some setter \<longrightarrow>
      processField X value t field = setter value field) \<and>
   (\<forall>u. decoderFrom X t = None \<and> setterFrom X t = None \<and> textUnmarshaler X t = Some u \<longrightarrow>
      processField X value t field = u value field) \<and>
   (\<forall>b. decoderFrom X t = None \<and> setterFrom X t = None \<and> textUnmarshaler X t = None \<and>
        binaryUnmarshaler X t = Some b \<longrightarrow>
      processField X value t field = b value field) \<and>
   (decoderFrom X t = None \<and> setterFrom X t = None \<and> textUnmarshaler X t = None \<and>
        binaryUnmarshaler X t = None \<longrightarrow>
      processField X value t field = coerceByKind X value t field)"
  by (simp add: processField.simps)

theorem processField_interface_order_witness:
  "processField (exampleExt\<lparr>decoderFrom := (\<lambda>t. Some (tagged ''Decode'')),
        setterFrom := (\<lambda>t. Some (tagged ''Set'')),
        textUnmarshaler := (\<lambda>t. Some (tagged ''UnmarshalText'')),
        binaryUnmarshaler := (\<lambda>t. Some (tagged ''UnmarshalBinary''))\<rparr>)
      ''v'' (Basic IntKind) (VInt 0) = (VString ''Decode:v'', None) \<and>
   processField (exampleExt\<lparr>setterFrom := (\<lambda>t. Some (tagged ''Set'')),
        textUnmarshaler := (\<lambda>t. Some (tagged ''UnmarshalText'')),
        binaryUnmarshaler := (\<lambda>t. Some (tagged ''UnmarshalBinary''))\<rparr>)
      ''v'' (Basic IntKind) (VInt 0) = (VString ''Set:v'', None) \<and>
   processField (exampleExt\<lparr>textUnmarshaler := (\<lambda>t. Some (tagged ''UnmarshalText'')),
        binaryUnmarshaler := (\<lambda>t. Some (tagged ''UnmarshalBinary''))\<rparr>)
      ''v'' (Basic IntKind) (VInt 0) = (VString ''UnmarshalText:v'', None) \<and>
   processField (exampleExt\<lparr>binaryUnmarshaler := (\<lambda>t. Some (tagged ''UnmarshalBinary''))\<rparr>)
      ''v'' (Basic IntKind) (VInt 0) = (VString ''UnmarshalBinary:v'', None) \<and>
   processField exampleExt ''v'' (Basic String) (VString []) = (VString ''v'', None)"
  using
    processField_interface_order [of "exampleExt\<lparr>decoderFrom := (\<lambda>t. Some (tagged ''Decode'')),
        setterFrom := (\<lambda>t. Some (tagged ''Set'')),
        textUnmarshaler := (\<lambda>t. Some (tagged ''UnmarshalText'')),
        binaryUnmarshaler := (\<lambda>t. Some (tagged ''UnmarshalBinary''))\<rparr>" "Basic IntKind" "''v''" "VInt 0"]
    processField_interface_order [of "exampleExt\<lparr>setterFrom := (\<lambda>t. Some (tagged ''Set'')),
        textUnmarshaler := (\<lambda>t. Some (tagged ''UnmarshalText'')),
        binaryUnmarshaler := (\<lambda>t. Some (tagged ''UnmarshalBinary''))\<rparr>" "Basic IntKind" "''v''" "VInt 0"]
    processField_interface_order [of "exampleExt\<lparr>textUnmarshaler := (\<lambda>t. Some (tagged ''UnmarshalText'')),
        binaryUnmarshaler := (\<lambda>t. Some (tagged ''UnmarshalBinary''))\<rparr>" "Basic IntKind" "''v''" "VInt 0"]
    processField_interface_order [of "exampleExt\<lparr>binaryUnmarshaler := (\<lambda>t. Some (tagged ''UnmarshalBinary''))\<rparr>" "Basic IntKind" "''v''" "VInt 0"]
    processField_interface_order [of exampleExt "Basic String" "''v''" "VString []"]
  by (simp add: exampleExt_def tagged_def coerceByKind.simps)

section \<open>Values that are absent\<close>

text \<open>
  Claim C3.  For every descriptor whose key is not in the environment, whose alternate key
  (if it has one) is not there either, and whose tag has no default: \<^verbatim>\<open>processInfo\<close>
  fails with the error of a missing required key exactly when the field is tagged
  required, or the option \<^verbatim>\<open>Required\<close> is on and the field is not tagged as not required.
  The error names the alternate key when there is one, else the key.  Otherwise the call
  succeeds.  Either way the struct is left as it was.
\<close>

theorem processInfo_required:
  assumes "env (Key info) = None"
    and "Alt info \<noteq> [] \<longrightarrow> env (Alt info) = None"
    and "Get (Tags info) ''default'' = []"
  shows "processInfo X env info options s =
     (s, if isTrue (Get (Tags info) ''required'') \<or>
            Required options \<and> \<not> isFalse (Get (Tags info) ''required'')
         then Some (RequiredKeyMissing (if Alt info \<noteq> [] then Alt info else Key info))
         else None)"
  using assms by (auto simp: processInfo_def lookupEnv_def)

theorem processInfo_required_witness:
  "processInfo exampleExt Map.empty (portInfo [(''required'', ''true'')] []) noOptions (VStruct [VInt 0]) =
     (VStruct [VInt 0], Some (RequiredKeyMissing ''APP_PORT'')) \<and>
   processInfo exampleExt Map.empty (portInfo [(''required'', ''true'')] ''PORT'') noOptions (VStruct [VInt 0]) =
     (VStruct [VInt 0], Some (RequiredKeyMissing ''PORT'')) \<and>
   processInfo exampleExt Map.empty (portInfo [(''required'', ''false'')] [])
       (noOptions\<lparr>Required := True\<rparr>) (VStruct [VInt 0]) =
     (VStruct [VInt 0], None) \<and>
   processInfo exampleExt Map.empty (portInfo [] []) (noOptions\<lparr>Required := True\<rparr>) (VStruct [VInt 0]) =
     (VStruct [VInt 0], Some (RequiredKeyMissing ''APP_PORT''))"
  using
    processInfo_required [of Map.empty "portInfo [(''required'', ''true'')] []" exampleExt noOptions "VStruct [VInt 0]"]
    processInfo_required [of Map.empty "portInfo [(''required'', ''true'')] ''PORT''" exampleExt noOptions "VStruct [VInt 0]"]
    processInfo_required [of Map.empty "portInfo [(''required'', ''false'')] []" exampleExt
      "noOptions\<lparr>Required := True\<rparr>" "VStruct [VInt 0]"]
    processInfo_required [of Map.empty "portInfo [] []" exampleExt
      "noOptions\<lparr>Required := True\<rparr>" "VStruct [VInt 0]"]
  by (simp add: portInfo_def noOptions_def Get_def isTrue_def isFalse_def ParseBool_def)

text \<open>
  Claim C8, amended.  For every descriptor with a default in its tag that is not the empty
  string, when neither the key nor the alternate key is in the environment,
  \<^verbatim>\<open>processInfo\<close> converts the default into the field: the result is that of the
  conversion of the default, it is the same as when the key is set to the default in the
  environment, and it is never the error of a missing required key, whatever the options
  and the tag say.  The default has to be non-empty: lines 263 and 268 test
  \<^verbatim>\<open>def != ""\<close> and \<^verbatim>\<open>def == ""\<close>, so that a tag \<^verbatim>\<open>default:""\<close> is the same as no default
  (see the example after the next one).
\<close>

theorem processInfo_default:
  assumes "env (Key info) = None"
    and "Alt info \<noteq> [] \<longrightarrow> env (Alt info) = None"
    and "Get (Tags info) ''default'' \<noteq> []"
  shows "processInfo X env info options s = convertField X info (Get (Tags info) ''default'') s \<and>
         processInfo X env info options s =
           processInfo X (env(Key info \<mapsto> Get (Tags info) ''default'')) info options s \<and>
         (\<forall>k. snd (processInfo X env info options s) \<noteq> Some (RequiredKeyMissing k))"
proof -
  have 1: "processInfo X env info options s = convertField X info (Get (Tags info) ''default'') s"
    using assms by (auto simp: processInfo_def lookupEnv_def)
  have 2: "processInfo X (env(Key info \<mapsto> Get (Tags info) ''default'')) info options s =
             convertField X info (Get (Tags info) ''default'') s"
    using assms by (auto simp: processInfo_def lookupEnv_def)
  have 3: "snd (convertField X info v s) \<noteq> Some (RequiredKeyMissing k)" for v k
    by (auto simp: convertField_def split: option.splits prod.splits err.splits)
  from 1 2 3 show ?thesis by simp
qed

theorem processInfo_default_witness:
  "processInfo exampleExt Map.empty (portInfo [(''default'', ''8080''), (''required'', ''true'')] [])
      (noOptions\<lparr>Required := True\<rparr>) (VStruct [VInt 0]) = (VStruct [VInt 8080], None)"
  using processInfo_default [of Map.empty "portInfo [(''default'', ''8080''), (''required'', ''true'')] []"
      exampleExt "noOptions\<lparr>Required := True\<rparr>" "VStruct [VInt 0]"]
  by (simp add: portInfo_def Get_def convertField_def processField_example_int)

text \<open>
  Claim C8 as the specification words it, for every field whose tag carries a default, does
  not hold when the default is the empty string.  The tag of the first descriptor below
  has the entry \<^verbatim>\<open>default:""\<close> and \<^verbatim>\<open>required:"true"\<close>; with nothing in the environment
  \<^verbatim>\<open>processInfo\<close> returns the error of the missing required key and leaves the field as it
  was, whereas with the key set to the empty string it runs the conversion.  The second
  descriptor is a string field with \<^verbatim>\<open>default:""\<close>: with nothing in the environment the
  field keeps its value, whereas the empty string, had it been found, would have been
  written to it.
\<close>

theorem processInfo_default_counterexample:
  "map_of (Tags (portInfo [(''default'', []), (''required'', ''true'')] [])) ''default'' = Some [] \<and>
   processInfo exampleExt Map.empty (portInfo [(''default'', []), (''required'', ''true'')] [])
       noOptions (VStruct [VInt 7]) =
     (VStruct [VInt 7], Some (RequiredKeyMissing ''APP_PORT'')) \<and>
   processInfo exampleExt [''APP_PORT'' \<mapsto> []] (portInfo [(''default'', []), (''required'', ''true'')] [])
       noOptions (VStruct [VInt 7]) =
     convertField exampleExt (portInfo [(''default'', []), (''required'', ''true'')] []) [] (VStruct [VInt 7]) \<and>
   processInfo exampleExt Map.empty
       \<lparr>Name = ''Name'', Alt = [], Key = ''APP_NAME'', Field = [FieldAt 0],
        FieldType = Basic String, Tags = [(''default'', [])]\<rparr>
       noOptions (VStruct [VString ''old'']) = (VStruct [VString ''old''], None) \<and>
   processInfo exampleExt [''APP_NAME'' \<mapsto> []]
       \<lparr>Name = ''Name'', Alt = [], Key = ''APP_NAME'', Field = [FieldAt 0],
        FieldType = Basic String, Tags = [(''default'', [])]\<rparr>
       noOptions (VStruct [VString ''old'']) = (VStruct [VString []], None)"
  by (simp add: processInfo_def lookupEnv_def portInfo_def noOptions_def Get_def isTrue_def
      ParseBool_def convertField_def processField_noInterface noInterface_exampleExt
      coerceByKind.simps)

text \<open>
  Claim C9.  When the key of a descriptor is set to the empty string in the environment,
  \<^verbatim>\<open>processInfo\<close> converts the empty string into the field, whatever default the tag has.
  Converted by kind, the empty string makes a string variable empty and a slice variable
  the empty slice.
\<close>

theorem processInfo_empty_value:
  assumes "env (Key info) = Some []"
  shows "processInfo X env info options s = convertField X info [] s \<and>
         (noInterface X t \<and> Kind t = String \<longrightarrow> processField X [] t field = (VString [], None)) \<and>
         (noInterface X t \<and> Kind t = Slice \<and> (Kind (Elem t) = Uint8 \<longrightarrow> Elem t = Basic Uint8) \<longrightarrow>
            processField X [] t field = (VSlice [], None))"
  using assms
  by (auto simp: processInfo_def lookupEnv_def processField_noInterface coerceByKind.simps
      TrimSpace_Nil)

theorem processInfo_empty_value_witness:
  "processInfo exampleExt [''APP_NAME'' \<mapsto> []]
      \<lparr>Name = ''Name'', Alt = [], Key = ''APP_NAME'', Field = [FieldAt 0],
       FieldType = Basic String, Tags = [(''default'', ''anonymous'')]\<rparr>
      noOptions (VStruct [VString ''old'']) = (VStruct [VString []], None) \<and>
   processField exampleExt [] (SliceOf (Basic String)) VNil = (VSlice [], None)"
  using processInfo_empty_value [of "[''APP_NAME'' \<mapsto> []]"
      "\<lparr>Name = ''Name'', Alt = [], Key = ''APP_NAME'', Field = [FieldAt 0],
       FieldType = Basic String, Tags = [(''default'', ''anonymous'')]\<rparr>"
      exampleExt noOptions "VStruct [VString ''old'']" "Basic String" "VString ''old''"]
    processInfo_empty_value [of "[''APP_NAME'' \<mapsto> []]"
      "\<lparr>Name = ''Name'', Alt = [], Key = ''APP_NAME'', Field = [FieldAt 0],
       FieldType = Basic String, Tags = [(''default'', ''anonymous'')]\<rparr>"
      exampleExt noOptions "VStruct [VString ''old'']" "SliceOf (Basic String)" VNil]
  by (simp add: convertField_def noInterface_exampleExt)


section \<open>Maps\<close>

text \<open>
  The words of the result for maps.  A pair with exactly one colon has the text before the
  colon (\<open>keyText\<close>) and the text after it (\<open>valueText\<close>).  \<open>coerceKey\<close> and \<open>coerceElem\<close> are
  the recursive calls of lines 395 and 400 on a fresh key and a fresh element.  A pair is
  good when it has exactly one colon and both sides convert; its \<open>entry\<close> is what they
  convert to.  \<open>inserts\<close> puts entries into a map in their order.  The keys of kind string,
  integer, unsigned and boolean are compared by value.
\<close>

definition keyText :: "string \<Rightarrow> string" where
  "keyText pair = takeWhile (\<lambda>c. c \<noteq> CHR '':'') pair"

definition valueText :: "string \<Rightarrow> string" where
  "valueText pair = tl (dropWhile (\<lambda>c. c \<noteq> CHR '':'') pair)"

definition coerceKey :: "ext \<Rightarrow> rtype \<Rightarrow> string \<Rightarrow> val \<times> err option" where
  "coerceKey X t s = processField X s (Key_of t) (zero (Key_of t))"

definition coerceElem :: "ext \<Rightarrow> rtype \<Rightarrow> string \<Rightarrow> val \<times> err option" where
  "coerceElem X t s = processField X s (Elem t) (zero (Elem t))"

definition goodPair :: "ext \<Rightarrow> rtype \<Rightarrow> string \<Rightarrow> bool" where
  "goodPair X t pair =
     (count_list pair CHR '':'' = 1 \<and> snd (coerceKey X t (keyText pair)) = None \<and>
      snd (coerceElem X t (valueText pair)) = None)"

definition entry :: "ext \<Rightarrow> rtype \<Rightarrow> string \<Rightarrow> val \<times> val" where
  "entry X t pair = (fst (coerceKey X t (keyText pair)), fst (coerceElem X t (valueText pair)))"

definition inserts :: "(val \<times> val) list \<Rightarrow> (val \<times> val) list \<Rightarrow> (val \<times> val) list" where
  "inserts mp kvs = foldl (\<lambda>m (k, v). SetMapIndex m k v) mp kvs"

definition byValue :: "val \<Rightarrow> bool" where
  "byValue k = (case k of VBool b \<Rightarrow> True | VInt i \<Rightarrow> True | VUint n \<Rightarrow> True | VString s \<Rightarrow> True
     | _ \<Rightarrow> False)"

lemma length_Split: "length (Split s c) = Suc (count_list s c)"
  by (induction s) (auto split: list.splits)

lemma Split_one:
  "count_list s c = 1 \<Longrightarrow> Split s c = [takeWhile (\<lambda>x. x \<noteq> c) s, tl (dropWhile (\<lambda>x. x \<noteq> c) s)]"
proof (induction s)
  case Nil
  then show ?case by simp
next
  case (Cons x xs)
  show ?case
  proof (cases "x = c")
    case True
    with Cons.prems have "count_list xs c = 0" by simp
    then have "c \<notin> set xs" by (simp add: count_list_0_iff)
    then have "Split xs c = [xs]" by (induction xs) auto
    with True show ?thesis by simp
  next
    case False
    with Cons show ?thesis by simp
  qed
qed

lemma Split_pair: "count_list pair CHR '':'' = 1 \<Longrightarrow> Split pair CHR '':'' = [keyText pair, valueText pair]"
  by (simp add: Split_one keyText_def valueText_def)

lemma mapLoop_good:
  "\<forall>p\<in>set ps. goodPair X t p \<Longrightarrow>
   mapLoop (coerceKey X t) (coerceElem X t) (ps @ rest) mp =
   mapLoop (coerceKey X t) (coerceElem X t) rest (inserts mp (map (entry X t) ps))"
proof (induction ps arbitrary: mp)
  case Nil
  then show ?case by (simp add: inserts_def)
next
  case (Cons p ps)
  from Cons.prems have g: "goodPair X t p" and gs: "\<forall>p\<in>set ps. goodPair X t p" by simp_all
  from g obtain k v where k: "coerceKey X t (keyText p) = (k, None)"
    and v: "coerceElem X t (valueText p) = (v, None)" and c: "count_list p CHR '':'' = 1"
    by (auto simp: goodPair_def) (metis prod.collapse)
  from k v have e: "entry X t p = (k, v)" by (simp add: entry_def)
  show ?case
    using Cons.IH [OF gs, of "SetMapIndex mp k v"] k v e
    by (simp add: Split_pair [OF c] inserts_def)
qed

lemma mapLoop_malformed:
  "count_list bad CHR '':'' \<noteq> 1 \<Longrightarrow> mapLoop fk fv (bad # rest) mp = Inl (InvalidMapItem bad)"
  by (simp add: length_Split)

lemma keyEq_byValue: "byValue a \<Longrightarrow> keyEq a b = (a = b)"
  by (cases a) (auto simp: byValue_def)

lemma SetMapIndex_byValue:
  "byValue k \<Longrightarrow> \<forall>k1\<in>fst ` set mp. byValue k1 \<Longrightarrow>
   map_of (SetMapIndex mp k v) = (map_of mp)(k \<mapsto> v) \<and> fst ` set (SetMapIndex mp k v) = insert k (fst ` set mp)"
proof (induction mp)
  case Nil
  then show ?case by simp
next
  case (Cons a mp)
  obtain k1 v1 where a: "a = (k1, v1)" by (cases a)
  with Cons.prems have "byValue k1" by simp
  then have "keyEq k1 k = (k1 = k)" by (rule keyEq_byValue)
  with Cons a show ?case by (auto simp: fun_upd_twist)
qed

lemma inserts_byValue:
  "\<forall>k\<in>fst ` set kvs. byValue k \<Longrightarrow> \<forall>k\<in>fst ` set mp. byValue k \<Longrightarrow>
   map_of (inserts mp kvs) = map_of mp ++ map_of (rev kvs)"
proof (induction kvs arbitrary: mp)
  case Nil
  then show ?case by (simp add: inserts_def)
next
  case (Cons a kvs)
  obtain k v where a: "a = (k, v)" by (cases a)
  with Cons.prems have bk: "byValue k" by simp
  from SetMapIndex_byValue [OF bk Cons.prems(2), of v]
  have m: "map_of (SetMapIndex mp k v) = (map_of mp)(k \<mapsto> v)"
    and s: "fst ` set (SetMapIndex mp k v) = insert k (fst ` set mp)" by simp_all
  have "\<forall>k\<in>fst ` set (SetMapIndex mp k v). byValue k"
    using s bk Cons.prems(2) by simp
  with Cons.IH [of "SetMapIndex mp k v"] Cons.prems(1)
  have "map_of (inserts (SetMapIndex mp k v) kvs) = map_of (SetMapIndex mp k v) ++ map_of (rev kvs)"
    by simp
  with m a show ?case by (simp add: inserts_def map_add_upd_left)
qed


text \<open>
  The claim's words, to compare with: a pair is split on its first colon, so that
  everything after the first colon is the value.  \<open>specCoerceMap\<close> is the conversion of a map
  with that split in the place of \<^verbatim>\<open>strings.Split(pair, ":")\<close>.
\<close>

definition specSplitPair :: "string \<Rightarrow> string list" where
  "specSplitPair pair = (if CHR '':'' \<in> set pair then [keyText pair, valueText pair] else [pair])"

fun specMapLoop ::
  "(string \<Rightarrow> val \<times> err option) \<Rightarrow> (string \<Rightarrow> val \<times> err option) \<Rightarrow>
   string list \<Rightarrow> (val \<times> val) list \<Rightarrow> err + (val \<times> val) list" where
  "specMapLoop fk fv [] mp = Inr mp"
| "specMapLoop fk fv (pair # pairs) mp =
     (let kvpair = specSplitPair pair in
      if length kvpair \<noteq> 2 then Inl (InvalidMapItem pair)
      else (case fk (kvpair ! 0) of
              (k, Some e) \<Rightarrow> Inl e
            | (k, None) \<Rightarrow>
                (case fv (kvpair ! 1) of
                   (v, Some e) \<Rightarrow> Inl e
                 | (v, None) \<Rightarrow> specMapLoop fk fv pairs (SetMapIndex mp k v))))"

definition specCoerceMap :: "ext \<Rightarrow> string \<Rightarrow> rtype \<Rightarrow> val \<Rightarrow> val \<times> err option" where
  "specCoerceMap X value t field =
     (if TrimSpace value \<noteq> [] then
        (case specMapLoop (coerceKey X t) (coerceElem X t) (Split value CHR '','') [] of
           Inl e \<Rightarrow> (field, Some e)
         | Inr mp \<Rightarrow> (VMap mp, None))
      else (VMap [], None))"

lemma processField_Map:
  assumes "noInterface X t" and "Kind t = Map"
  shows "processField X value t field =
     (if TrimSpace value \<noteq> [] then
        (case mapLoop (coerceKey X t) (coerceElem X t) (Split value CHR '','') [] of
           Inl e \<Rightarrow> (field, Some e)
         | Inr mp \<Rightarrow> (VMap mp, None))
      else (VMap [], None))"
proof -
  have k: "coerceKey X t = (\<lambda>k. processField X k (Key_of t) (zero (Key_of t)))"
    and v: "coerceElem X t = (\<lambda>v. processField X v (Elem t) (zero (Elem t)))"
    by (simp_all add: coerceKey_def coerceElem_def fun_eq_iff)
  show ?thesis
    unfolding processField_noInterface [OF assms(1)] k v
    by (subst coerceByKind.simps) (simp add: assms(2))
qed

lemma mapLoop_failing_side:
  assumes "count_list p CHR '':'' = 1"
    and "snd (coerceKey X t (keyText p)) = Some e \<or>
         snd (coerceKey X t (keyText p)) = None \<and> snd (coerceElem X t (valueText p)) = Some e"
  shows "mapLoop (coerceKey X t) (coerceElem X t) (p # rest) mp = Inl e"
  using assms(2) by (auto simp: Split_pair [OF assms(1)] split: prod.splits option.splits)

text \<open>
  Claim C1, amended.  For a map variable whose type has none of the four interfaces: a
  value that is empty or all spaces gives the empty map.  Any other value is split on the
  commas into pairs, which are taken in order.  A pair must hold exactly one colon: the
  first pair with no colon or with more than one makes the conversion fail with the error
  of an invalid map item, naming that pair, and the variable keeps what it held.  The text
  before the colon is converted into a fresh key and the text after it into a fresh
  element, by \<^verbatim>\<open>processField\<close> itself; the first error of a side is the error of the
  conversion.  When all pairs are good the variable holds the map of their entries,
  inserted in order; for keys compared by value a later pair overwrites an earlier one
  with the same key.
\<close>

theorem coerce_map:
  assumes "noInterface X t" and "Kind t = Map"
  shows "(TrimSpace value = [] \<longrightarrow> processField X value t field = (VMap [], None)) \<and>
    (TrimSpace value \<noteq> [] \<and> Split value CHR '','' = ps @ bad # rest \<and>
       (\<forall>p\<in>set ps. goodPair X t p) \<and> count_list bad CHR '':'' \<noteq> 1 \<longrightarrow>
     processField X value t field = (field, Some (InvalidMapItem bad))) \<and>
    (TrimSpace value \<noteq> [] \<and> Split value CHR '','' = ps @ bad # rest \<and>
       (\<forall>p\<in>set ps. goodPair X t p) \<and> count_list bad CHR '':'' = 1 \<and>
       (snd (coerceKey X t (keyText bad)) = Some e \<or>
        snd (coerceKey X t (keyText bad)) = None \<and> snd (coerceElem X t (valueText bad)) = Some e) \<longrightarrow>
     processField X value t field = (field, Some e)) \<and>
    (TrimSpace value \<noteq> [] \<and> (\<forall>p\<in>set (Split value CHR '',''). goodPair X t p) \<longrightarrow>
     processField X value t field =
       (VMap (inserts [] (map (entry X t) (Split value CHR '',''))), None) \<and>
     ((\<forall>p\<in>set (Split value CHR '',''). byValue (fst (entry X t p))) \<longrightarrow>
      map_of (inserts [] (map (entry X t) (Split value CHR '',''))) =
      map_of (rev (map (entry X t) (Split value CHR '','')))))"
proof (intro conjI impI)
  assume "TrimSpace value = []"
  then show "processField X value t field = (VMap [], None)"
    by (simp add: processField_Map [OF assms])
next
  assume a: "TrimSpace value \<noteq> [] \<and> Split value CHR '','' = ps @ bad # rest \<and>
       (\<forall>p\<in>set ps. goodPair X t p) \<and> count_list bad CHR '':'' \<noteq> 1"
  then have "mapLoop (coerceKey X t) (coerceElem X t) (Split value CHR '','') [] =
      Inl (InvalidMapItem bad)"
    by (simp add: mapLoop_good mapLoop_malformed del: mapLoop.simps)
  with a show "processField X value t field = (field, Some (InvalidMapItem bad))"
    by (simp add: processField_Map [OF assms])
next
  assume a: "TrimSpace value \<noteq> [] \<and> Split value CHR '','' = ps @ bad # rest \<and>
       (\<forall>p\<in>set ps. goodPair X t p) \<and> count_list bad CHR '':'' = 1 \<and>
       (snd (coerceKey X t (keyText bad)) = Some e \<or>
        snd (coerceKey X t (keyText bad)) = None \<and> snd (coerceElem X t (valueText bad)) = Some e)"
  then have "mapLoop (coerceKey X t) (coerceElem X t) (Split value CHR '','') [] = Inl e"
    by (simp add: mapLoop_good mapLoop_failing_side del: mapLoop.simps)
  with a show "processField X value t field = (field, Some e)"
    by (simp add: processField_Map [OF assms])
next
  assume a: "TrimSpace value \<noteq> [] \<and> (\<forall>p\<in>set (Split value CHR '',''). goodPair X t p)"
  then have "mapLoop (coerceKey X t) (coerceElem X t) (Split value CHR '','' @ []) [] =
      Inr (inserts [] (map (entry X t) (Split value CHR '','')))"
    by (subst mapLoop_good) simp_all
  with a show "processField X value t field =
      (VMap (inserts [] (map (entry X t) (Split value CHR '',''))), None)"
    by (simp add: processField_Map [OF assms])
next
  assume "\<forall>p\<in>set (Split value CHR '',''). byValue (fst (entry X t p))"
  then show "map_of (inserts [] (map (entry X t) (Split value CHR '',''))) =
      map_of (rev (map (entry X t) (Split value CHR '','')))"
    by (subst inserts_byValue) auto
qed

lemma processField_example_string:
  "processField exampleExt s (Basic String) field = (VString s, None)"
  unfolding processField_noInterface [OF noInterface_exampleExt]
  by (simp add: coerceByKind.simps)

lemma TrimSpace_examples:
  "TrimSpace ''k1:v1,k2:v2'' = ''k1:v1,k2:v2''" "TrimSpace ''badpair'' = ''badpair''"
  "TrimSpace ''a:b:c'' = ''a:b:c''" "TrimSpace ''k:1,k:2'' = ''k:1,k:2''"
  by code_simp+

text \<open>
  The claim as stated fails on the value \<^verbatim>\<open>a:b:c\<close> for a map from strings to strings:
  split on the first colon it would give the entry from \<^verbatim>\<open>a\<close> to \<^verbatim>\<open>b:c\<close>, and the code
  rejects the pair.
\<close>

theorem coerce_map_counterexample:
  "specCoerceMap exampleExt ''a:b:c'' (MapOf (Basic String) (Basic String)) VNil =
     (VMap [(VString ''a'', VString ''b:c'')], None) \<and>
   processField exampleExt ''a:b:c'' (MapOf (Basic String) (Basic String)) VNil =
     (VNil, Some (InvalidMapItem ''a:b:c''))"
  by (simp add: specCoerceMap_def specSplitPair_def keyText_def valueText_def coerceKey_def
      coerceElem_def processField_example_string TrimSpace_examples
      processField_Map [OF noInterface_exampleExt])

theorem coerce_map_witness:
  "processField exampleExt ''k1:v1,k2:v2'' (MapOf (Basic String) (Basic String)) VNil =
     (VMap [(VString ''k1'', VString ''v1''), (VString ''k2'', VString ''v2'')], None) \<and>
   processField exampleExt ''badpair'' (MapOf (Basic String) (Basic String)) VNil =
     (VNil, Some (InvalidMapItem ''badpair'')) \<and>
   processField exampleExt ''k:1,k:2'' (MapOf (Basic String) (Basic String)) VNil =
     (VMap [(VString ''k'', VString ''2'')], None)"
  using
    coerce_map [OF noInterface_exampleExt, of "MapOf (Basic String) (Basic String)" "''k1:v1,k2:v2''"
      VNil "[]" "[]" "[]"]
    coerce_map [OF noInterface_exampleExt, of "MapOf (Basic String) (Basic String)" "''badpair''"
      VNil "[]" "''badpair''" "[]"]
    coerce_map [OF noInterface_exampleExt, of "MapOf (Basic String) (Basic String)" "''k:1,k:2''"
      VNil "[]" "[]" "[]"]
  by (simp add: TrimSpace_examples goodPair_def entry_def keyText_def valueText_def coerceKey_def
      coerceElem_def processField_example_string inserts_def)


section \<open>Splitting a field name into words\<close>

text \<open>
  The words of the spec, to compare with the two patterns: a word is a run of characters
  that are not upper case, or an upper-case run followed by such characters, or a trailing
  upper-case run (\<open>specWords\<close> cuts a name into its words from the left); a word made of an
  acronym and a capitalised word, that is of two or more upper-case letters followed by
  other characters, is split before the last upper-case letter (\<open>specSegments\<close>); the
  segments are joined with underscores (\<open>specSplitName\<close>).
\<close>

definition upperAZ :: "char \<Rightarrow> bool" where
  "upperAZ c = inRange CHR ''A'' CHR ''Z'' c"

lemma rev_upt_Suc: "rev [Suc 0..<Suc (Suc n)] = map Suc (rev [Suc 0..<Suc n]) @ [Suc 0]"
proof -
  have "[Suc 0..<Suc (Suc n)] = Suc 0 # map Suc [Suc 0..<Suc n]"
    by (simp add: upt_conv_Cons map_Suc_upt del: upt_Suc)
  then show ?thesis by (simp add: rev_map del: upt_Suc)
qed

lemma drop_rests:
  "map (\<lambda>k. ([], drop k cs)) (rev [Suc 0..<Suc n]) @ [([], cs)] =
   map (\<lambda>k. ([], drop k (c # cs))) (rev [Suc 0..<Suc (Suc n)])"
  by (simp add: rev_upt_Suc o_def del: upt_Suc)

lemma matches_Plus_Range:
  "matches (Plus (Range a b)) s =
     map (\<lambda>k. ([], drop k s)) (rev [Suc 0..<Suc (length (takeWhile (inRange a b) s))])"
proof (induction s)
  case Nil
  then show ?case by simp
next
  case (Cons c cs)
  show ?case
  proof (cases "inRange a b c")
    case False
    then show ?thesis by simp
  next
    case True
    then have "matches (Plus (Range a b)) (c # cs) =
        map (\<lambda>(g2, y). (if g2 = [] then [] else g2, y)) (matches (Plus (Range a b)) cs) @ [([], cs)]"
      by simp
    also have "\<dots> = map (\<lambda>k. ([], drop k cs))
        (rev [Suc 0..<Suc (length (takeWhile (inRange a b) cs))]) @ [([], cs)]"
      unfolding Cons.IH by (simp add: o_def del: upt_Suc)
    finally show ?thesis using True by (simp add: drop_rests del: upt_Suc)
  qed
qed

lemma matches_Plus_NotRange:
  "matches (Plus (NotRange a b)) s =
     map (\<lambda>k. ([], drop k s)) (rev [Suc 0..<Suc (length (takeWhile (\<lambda>c. \<not> inRange a b c) s))])"
proof (induction s)
  case Nil
  then show ?case by simp
next
  case (Cons c cs)
  show ?case
  proof (cases "inRange a b c")
    case True
    then show ?thesis by simp
  next
    case False
    then have "matches (Plus (NotRange a b)) (c # cs) =
        map (\<lambda>(g2, y). (if g2 = [] then [] else g2, y)) (matches (Plus (NotRange a b)) cs) @ [([], cs)]"
      by simp
    also have "\<dots> = map (\<lambda>k. ([], drop k cs))
        (rev [Suc 0..<Suc (length (takeWhile (\<lambda>c. \<not> inRange a b c) cs))]) @ [([], cs)]"
      unfolding Cons.IH by (simp add: o_def del: upt_Suc)
    finally show ?thesis using False by (simp add: drop_rests del: upt_Suc)
  qed
qed


definition notUpperAZ :: "char \<Rightarrow> bool" where
  "notUpperAZ c = (\<not> upperAZ c)"

lemma length_dropWhile_less: "s \<noteq> [] \<Longrightarrow> P (hd s) \<Longrightarrow> length (dropWhile P s) < length s"
  by (cases s) (auto simp: less_Suc_eq_le length_dropWhile_le)

function specWords :: "string \<Rightarrow> string list" where
  "specWords s =
     (if s = [] then []
      else if notUpperAZ (hd s) then takeWhile notUpperAZ s # specWords (dropWhile notUpperAZ s)
      else (takeWhile upperAZ s @ takeWhile notUpperAZ (dropWhile upperAZ s)) #
           specWords (dropWhile notUpperAZ (dropWhile upperAZ s)))"
  by pat_completeness auto
termination
proof (relation "measure length", goal_cases)
  case 1
  show ?case by simp
next
  case (2 s)
  then show ?case by (simp add: length_dropWhile_less)
next
  case (3 s)
  then have "length (dropWhile upperAZ s) < length s"
    by (simp add: length_dropWhile_less notUpperAZ_def)
  moreover have "length (dropWhile notUpperAZ (dropWhile upperAZ s)) \<le> length (dropWhile upperAZ s)"
    by (rule length_dropWhile_le)
  ultimately show ?case by simp
qed

declare specWords.simps [simp del]

definition specSegments :: "string \<Rightarrow> string list" where
  "specSegments w =
     (let acronym = takeWhile upperAZ w; rest = dropWhile upperAZ w in
      if 2 \<le> length acronym \<and> rest \<noteq> [] then [butlast acronym, last acronym # rest] else [w])"

definition specSplitName :: "string \<Rightarrow> string" where
  "specSplitName name = Join (concat (map specSegments (specWords name))) ''_''"

lemma rev_upt_Cons: "0 < n \<Longrightarrow> rev [Suc 0..<Suc n] = n # rev [Suc 0..<n]"
  by simp

lemma take_length_dropWhile: "take (length s - length (dropWhile P s)) s = takeWhile P s"
proof -
  have "length s - length (dropWhile P s) = length (takeWhile P s)"
    by (metis add_diff_cancel_right' length_append takeWhile_dropWhile_id)
  then show ?thesis by (metis append_eq_conv_conj takeWhile_dropWhile_id)
qed

lemma plus_upper_Nil: "s = [] \<or> \<not> upperAZ (hd s) \<Longrightarrow> matches (Plus (Range CHR ''A'' CHR ''Z'')) s = []"
  by (cases s) (auto simp: upperAZ_def)

lemma plus_notUpper_Nil:
  "s = [] \<or> upperAZ (hd s) \<Longrightarrow> matches (Plus (NotRange CHR ''A'' CHR ''Z'')) s = []"
  by (cases s) (auto simp: upperAZ_def)

lemma plus_upper_Cons:
  assumes "s \<noteq> []" and "upperAZ (hd s)"
  shows "matches (Plus (Range CHR ''A'' CHR ''Z'')) s =
     ([], dropWhile upperAZ s) #
     map (\<lambda>k. ([], drop k s)) (rev [Suc 0..<length (takeWhile upperAZ s)])"
proof -
  from assms have "0 < length (takeWhile upperAZ s)" by (cases s) auto
  then show ?thesis
    unfolding matches_Plus_Range
    by (simp add: upperAZ_def [abs_def] rev_upt_Cons dropWhile_eq_drop del: upt_Suc)
qed

lemma plus_notUpper_Cons:
  assumes "s \<noteq> []" and "notUpperAZ (hd s)"
  shows "matches (Plus (NotRange CHR ''A'' CHR ''Z'')) s =
     ([], dropWhile notUpperAZ s) #
     map (\<lambda>k. ([], drop k s)) (rev [Suc 0..<length (takeWhile notUpperAZ s)])"
proof -
  from assms have "0 < length (takeWhile notUpperAZ s)" by (cases s) auto
  then show ?thesis
    unfolding matches_Plus_NotRange
    by (simp add: notUpperAZ_def [abs_def] upperAZ_def [abs_def] rev_upt_Cons dropWhile_eq_drop
        del: upt_Suc)
qed


lemma upper_at_drop:
  assumes "k < length (takeWhile upperAZ s)"
  shows "drop k s \<noteq> [] \<and> upperAZ (hd (drop k s))"
proof -
  have le: "length (takeWhile upperAZ s) \<le> length s" by (rule length_takeWhile_le)
  with assms have k: "k < length s" by simp
  have "takeWhile upperAZ s ! k \<in> set (takeWhile upperAZ s)" using assms by simp
  then have "upperAZ (takeWhile upperAZ s ! k)" by (rule set_takeWhileD [THEN conjunct2])
  then have "upperAZ (s ! k)" using assms by (simp add: takeWhile_nth)
  with k show ?thesis by (simp add: hd_drop_conv_nth)
qed

lemma take_two_runs:
  "take (length s - length (dropWhile Q (dropWhile P s))) s = takeWhile P s @ takeWhile Q (dropWhile P s)"
proof -
  have "s = (takeWhile P s @ takeWhile Q (dropWhile P s)) @ dropWhile Q (dropWhile P s)"
    by simp
  then show ?thesis
    by (metis add_diff_cancel_right' append_eq_conv_conj length_append)
qed

lemma gather_head_notUpper:
  assumes "s \<noteq> []" and "notUpperAZ (hd s)"
  shows "\<exists>tl. matches gatherRegexp s = ([takeWhile notUpperAZ s], dropWhile notUpperAZ s) # tl"
  using assms
  by (simp add: gatherRegexp_def plus_notUpper_Cons take_length_dropWhile del: matches.simps(3))

lemma concat_no_lower:
  "concat (map (\<lambda>(g1, s1). map (\<lambda>(g2, s2). (g1 @ g2, s2)) (matches (Plus (NotRange CHR ''A'' CHR ''Z'')) s1))
      (map (\<lambda>k. ([], drop k s)) (rev [Suc 0..<length (takeWhile upperAZ s)]))) = []"
  by (auto simp: upper_at_drop plus_notUpper_Nil simp del: matches.simps(3) upt_Suc)

lemma gather_head_upper:
  assumes "s \<noteq> []" and "upperAZ (hd s)"
  shows "\<exists>tl. matches gatherRegexp s =
     ([takeWhile upperAZ s @ takeWhile notUpperAZ (dropWhile upperAZ s)],
      dropWhile notUpperAZ (dropWhile upperAZ s)) # tl"
proof -
  let ?U = "Plus (Range CHR ''A'' CHR ''Z'')" and ?N = "Plus (NotRange CHR ''A'' CHR ''Z'')"
  let ?r = "dropWhile upperAZ s"
  let ?others = "map (\<lambda>k. ([], drop k s)) (rev [Suc 0..<length (takeWhile upperAZ s)])"
  let ?F = "\<lambda>(g1, s1). map (\<lambda>(g2, s2). (g1 @ g2, s2)) (matches ?N s1)"
  have a1: "matches ?N s = []" by (rule plus_notUpper_Nil) (simp add: assms)
  have pu: "matches ?U s = ([], ?r) # ?others" using assms by (rule plus_upper_Cons)
  have "matches (Concat ?U ?N) s = concat (map ?F (matches ?U s))"
    by (simp only: matches.simps(4))
  also have "\<dots> = ?F ([], ?r) @ concat (map ?F ?others)"
    unfolding pu by (simp del: matches.simps(3))
  also have "concat (map ?F ?others) = []" by (rule concat_no_lower)
  finally have a2: "matches (Concat ?U ?N) s = map (\<lambda>(g2, s2). (g2, s2)) (matches ?N ?r)"
    by (simp del: matches.simps(3))
  have g: "matches gatherRegexp s =
      map (\<lambda>(g, s1). (take (length s - length s1) s # g, s1))
        (matches ?N ?r @ ([], ?r) # ?others)"
    unfolding gatherRegexp_def matches.simps(6) matches.simps(5) a1 a2 pu
    by (simp del: matches.simps(3))
  show ?thesis
  proof (cases "?r = []")
    case True
    then have all: "takeWhile upperAZ s = s"
      by (metis append_Nil2 takeWhile_dropWhile_id)
    have n: "matches ?N ?r = []" by (rule plus_notUpper_Nil) (simp add: True)
    show ?thesis unfolding g n unfolding True all by (simp del: upt_Suc)
  next
    case False
    then have "notUpperAZ (hd ?r)" by (simp add: notUpperAZ_def hd_dropWhile)
    from plus_notUpper_Cons [OF False this] show ?thesis
      unfolding g by (simp add: take_two_runs del: upt_Suc matches.simps(3))
  qed
qed

lemma FindAll_gather: "FindAllStringSubmatch gatherRegexp s = map (\<lambda>w. [w, w]) (specWords s)"
proof (induction s rule: specWords.induct)
  case (1 s)
  show ?case
  proof (cases "s = []")
    case True
    then show ?thesis
      by (simp add: FindAllStringSubmatch.simps [of _ "[]"] specWords.simps [of "[]"] gatherRegexp_def)
  next
    case False
    show ?thesis
    proof (cases "notUpperAZ (hd s)")
      case True
      from gather_head_notUpper [OF False True] obtain tl where
        m: "matches gatherRegexp s = ([takeWhile notUpperAZ s], dropWhile notUpperAZ s) # tl" ..
      have lt: "length (dropWhile notUpperAZ s) < length s"
        using False True by (simp add: length_dropWhile_less)
      show ?thesis
        using "1.IH"(1) [OF False True] m lt False True
        by (simp add: FindAllStringSubmatch.simps [of _ s] specWords.simps [of s] take_length_dropWhile)
    next
      case nu: False
      then have u: "upperAZ (hd s)" by (simp add: notUpperAZ_def)
      from gather_head_upper [OF False u] obtain tl where
        m: "matches gatherRegexp s =
          ([takeWhile upperAZ s @ takeWhile notUpperAZ (dropWhile upperAZ s)],
           dropWhile notUpperAZ (dropWhile upperAZ s)) # tl" ..
      have "length (dropWhile upperAZ s) < length s"
        using False u by (simp add: length_dropWhile_less)
      moreover have "length (dropWhile notUpperAZ (dropWhile upperAZ s)) \<le> length (dropWhile upperAZ s)"
        by (rule length_dropWhile_le)
      ultimately have lt: "length (dropWhile notUpperAZ (dropWhile upperAZ s)) < length s" by simp
      show ?thesis
        using "1.IH"(2) [OF False nu] m lt False nu
        by (simp add: FindAllStringSubmatch.simps [of _ s] specWords.simps [of s] take_two_runs)
    qed
  qed
qed


lemma word_Nil:
  assumes "x = [] \<or> \<not> upperAZ (hd x) \<or> tl x = [] \<or> upperAZ (hd (tl x))"
  shows "matches (Capture (Concat (Range CHR ''A'' CHR ''Z'') (Plus (NotRange CHR ''A'' CHR ''Z'')))) x = []"
proof (cases x)
  case Nil
  then show ?thesis by simp
next
  case (Cons c y)
  show ?thesis
  proof (cases "upperAZ c")
    case False
    with Cons show ?thesis by (simp add: upperAZ_def)
  next
    case True
    with assms Cons have "y = [] \<or> upperAZ (hd y)" by simp
    then have "matches (Plus (NotRange CHR ''A'' CHR ''Z'')) y = []" by (rule plus_notUpper_Nil)
    with Cons show ?thesis by (simp del: matches.simps(3))
  qed
qed

lemma word_Cons:
  assumes "upperAZ c" and "y \<noteq> []" and "notUpperAZ (hd y)"
  shows "\<exists>tl. matches (Capture (Concat (Range CHR ''A'' CHR ''Z'') (Plus (NotRange CHR ''A'' CHR ''Z'')))) (c # y) =
     ([c # takeWhile notUpperAZ y], dropWhile notUpperAZ y) # tl"
proof -
  have t: "Suc (length y) - length (dropWhile notUpperAZ y) = Suc (length (takeWhile notUpperAZ y))"
    by (metis Suc_diff_le add_diff_cancel_right' length_append length_dropWhile_le
        takeWhile_dropWhile_id)
  have tt: "take (length (takeWhile notUpperAZ y)) y = takeWhile notUpperAZ y"
    by (metis append_eq_conv_conj takeWhile_dropWhile_id)
  show ?thesis
    using assms(1) plus_notUpper_Cons [OF assms(2,3)]
    by (simp add: upperAZ_def t tt del: matches.simps(3) upt_Suc)
qed

lemma capture_upper:
  "matches (Capture (Plus (Range CHR ''A'' CHR ''Z''))) w =
     map (\<lambda>k. ([take k w], drop k w)) (rev [Suc 0..<Suc (length (takeWhile upperAZ w))])"
proof -
  have "k \<in> set [Suc 0..<Suc (length (takeWhile upperAZ w))] \<Longrightarrow> length w - (length w - k) = k" for k
    using length_takeWhile_le [of upperAZ w] by auto
  then show ?thesis
    unfolding matches.simps(6) matches_Plus_Range
    by (simp add: upperAZ_def [abs_def] o_def del: upt_Suc)
qed

lemma acronym_matches:
  "matches acronymRegexp w =
     concat (map (\<lambda>k. map (\<lambda>(g2, s2). (take k w # g2, s2))
         (matches (Capture (Concat (Range CHR ''A'' CHR ''Z'') (Plus (NotRange CHR ''A'' CHR ''Z''))))
            (drop k w)))
       (rev [Suc 0..<Suc (length (takeWhile upperAZ w))]))"
  unfolding acronymRegexp_def matches.simps(4) capture_upper
  by (simp add: o_def del: matches.simps upt_Suc)

definition isAcronymWord :: "string \<Rightarrow> bool" where
  "isAcronymWord w = (2 \<le> length (takeWhile upperAZ w) \<and> dropWhile upperAZ w \<noteq> [])"

lemma acronym_matches_Nil:
  assumes "\<not> isAcronymWord w"
  shows "matches acronymRegexp w = []"
proof -
  let ?W = "Capture (Concat (Range CHR ''A'' CHR ''Z'') (Plus (NotRange CHR ''A'' CHR ''Z'')))"
  let ?n = "length (takeWhile upperAZ w)"
  have "matches ?W (drop k w) = []" if k: "k \<in> set (rev [Suc 0..<Suc ?n])" for k
  proof (cases "dropWhile upperAZ w = []")
    case True
    then have all: "\<forall>c\<in>set w. upperAZ c" by simp
    have "\<forall>c\<in>set (drop k w). upperAZ c" using all by (meson in_set_dropD)
    then have "drop k w = [] \<or> tl (drop k w) = [] \<or> upperAZ (hd (tl (drop k w)))"
      by (cases "drop k w") (auto dest: hd_in_set)
    then show ?thesis by (intro word_Nil) auto
  next
    case False
    with assms have "?n < 2" unfolding isAcronymWord_def by (meson not_le)
    with k have "k = ?n" by auto
    then have "drop k w = dropWhile upperAZ w" by (simp add: dropWhile_eq_drop)
    with False have "\<not> upperAZ (hd (drop k w))" by (simp add: hd_dropWhile)
    then show ?thesis by (intro word_Nil) auto
  qed
  then show ?thesis unfolding acronym_matches by (simp del: matches.simps upt_Suc)
qed


lemma acronym_matches_Cons:
  assumes "isAcronymWord w"
  shows "\<exists>tl. matches acronymRegexp w =
     ([butlast (takeWhile upperAZ w),
       last (takeWhile upperAZ w) # takeWhile notUpperAZ (dropWhile upperAZ w)],
      dropWhile notUpperAZ (dropWhile upperAZ w)) # tl"
proof -
  let ?W = "Capture (Concat (Range CHR ''A'' CHR ''Z'') (Plus (NotRange CHR ''A'' CHR ''Z'')))"
  let ?u = "takeWhile upperAZ w" and ?r = "dropWhile upperAZ w"
  let ?n = "length ?u"
  from assms have n2: "2 \<le> ?n" and r: "?r \<noteq> []" by (simp_all add: isAcronymWord_def)
  have le: "?n \<le> length w" by (rule length_takeWhile_le)
  have drop_n: "drop ?n w = ?r" by (simp add: dropWhile_eq_drop)
  have s1: "Suc (?n - 1) = ?n" and n0: "0 < ?n" and n1: "0 < ?n - 1" using n2 by linarith+
  have "rev [Suc 0..<Suc ?n] = ?n # rev [Suc 0..<?n]"
    by (rule rev_upt_Cons [OF n0])
  also have "rev [Suc 0..<?n] = rev [Suc 0..<Suc (?n - 1)]" by (simp only: s1)
  also have "\<dots> = (?n - 1) # rev [Suc 0..<?n - 1]"
    by (rule rev_upt_Cons [OF n1])
  finally have idx: "rev [Suc 0..<Suc ?n] = ?n # (?n - 1) # rev [Suc 0..<?n - 1]" .
  have hr: "notUpperAZ (hd ?r)" using r by (simp add: notUpperAZ_def hd_dropWhile)
  have w1: "matches ?W (drop ?n w) = []"
    unfolding drop_n using hr by (intro word_Nil) (simp add: notUpperAZ_def)
  have u_ne: "?u \<noteq> []" using n2 by auto
  have "w ! (?n - 1) = ?u ! (?n - 1)" using n2 by (simp add: takeWhile_nth)
  also have "\<dots> = last ?u" using u_ne by (simp add: last_conv_nth)
  finally have nth: "w ! (?n - 1) = last ?u" .
  have "drop (?n - 1) w = w ! (?n - 1) # drop (Suc (?n - 1)) w"
    using n2 le by (intro Cons_nth_drop_Suc [symmetric]) simp
  then have dk: "drop (?n - 1) w = last ?u # ?r"
    unfolding s1 nth drop_n .
  have "last ?u \<in> set ?u" using u_ne by simp
  then have ul: "upperAZ (last ?u)" by (rule set_takeWhileD [THEN conjunct2])
  from word_Cons [OF ul r hr] obtain tl where
    w2: "matches ?W (last ?u # ?r) = ([last ?u # takeWhile notUpperAZ ?r], dropWhile notUpperAZ ?r) # tl" ..
  have "take ?n w = ?u" by (metis append_eq_conv_conj takeWhile_dropWhile_id)
  then have bl: "take (?n - 1) w = butlast ?u"
    using le by (metis butlast_take)
  show ?thesis
    using w1 dk w2 bl unfolding acronym_matches idx by (simp del: matches.simps upt_Suc)
qed

lemma Find_acronym_Some:
  assumes "isAcronymWord w"
  shows "\<exists>whole. FindStringSubmatch acronymRegexp w =
     Some [whole, butlast (takeWhile upperAZ w),
       last (takeWhile upperAZ w) # takeWhile notUpperAZ (dropWhile upperAZ w)]"
proof -
  from acronym_matches_Cons [OF assms] obtain tl where
    "matches acronymRegexp w =
       ([butlast (takeWhile upperAZ w),
         last (takeWhile upperAZ w) # takeWhile notUpperAZ (dropWhile upperAZ w)],
        dropWhile notUpperAZ (dropWhile upperAZ w)) # tl" ..
  then show ?thesis by (simp add: FindStringSubmatch.simps [of _ w])
qed

lemma Find_acronym_None:
  assumes "\<forall>c\<in>set (dropWhile upperAZ w). notUpperAZ c" and "\<not> isAcronymWord w"
  shows "FindStringSubmatch acronymRegexp w = None"
  using assms
proof (induction w)
  case Nil
  then show ?case
    by (simp add: FindStringSubmatch.simps [of _ "[]"] acronym_matches_Nil)
next
  case (Cons c cs)
  have m: "matches acronymRegexp (c # cs) = []" using Cons.prems(2) by (rule acronym_matches_Nil)
  have "(\<forall>c\<in>set (dropWhile upperAZ cs). notUpperAZ c) \<and> \<not> isAcronymWord cs"
  proof (cases "upperAZ c")
    case True
    with Cons.prems show ?thesis by (auto simp: isAcronymWord_def)
  next
    case False
    with Cons.prems(1) have all: "\<forall>c\<in>set cs. notUpperAZ c" by simp
    then have "takeWhile upperAZ cs = []"
      by (cases cs) (auto simp: notUpperAZ_def)
    moreover have "\<forall>c\<in>set (dropWhile upperAZ cs). notUpperAZ c"
      using all by (meson set_dropWhileD)
    ultimately show ?thesis by (simp add: isAcronymWord_def)
  qed
  with Cons.IH have "FindStringSubmatch acronymRegexp cs = None" by simp
  with m show ?case by (simp add: FindStringSubmatch.simps [of _ "c # cs"])
qed

lemma specWords_form:
  "w \<in> set (specWords s) \<Longrightarrow> \<forall>c\<in>set (dropWhile upperAZ w). notUpperAZ c"
proof (induction s rule: specWords.induct)
  case (1 s)
  show ?case
  proof (cases "s = []")
    case True
    with "1.prems" show ?thesis by (simp add: specWords.simps [of "[]"])
  next
    case False
    show ?thesis
    proof (cases "notUpperAZ (hd s)")
      case True
      from "1.prems" False True
      consider "w = takeWhile notUpperAZ s" | "w \<in> set (specWords (dropWhile notUpperAZ s))"
        by (auto simp: specWords.simps [of s])
      then show ?thesis
      proof cases
        case 1
        have "\<forall>c\<in>set (takeWhile notUpperAZ s). notUpperAZ c"
          by (meson set_takeWhileD)
        moreover have "set (dropWhile upperAZ w) \<subseteq> set w" by (meson set_dropWhileD subsetI)
        ultimately show ?thesis using 1 by auto
      next
        case 2
        then show ?thesis by (rule "1.IH"(1) [OF False True])
      qed
    next
      case nu: False
      let ?u = "takeWhile upperAZ s" and ?l = "takeWhile notUpperAZ (dropWhile upperAZ s)"
      from "1.prems" False nu
      consider "w = ?u @ ?l" | "w \<in> set (specWords (dropWhile notUpperAZ (dropWhile upperAZ s)))"
        by (auto simp: specWords.simps [of s])
      then show ?thesis
      proof cases
        case 1
        have "\<forall>c\<in>set ?u. upperAZ c" by (meson set_takeWhileD)
        then have "dropWhile upperAZ (?u @ ?l) = dropWhile upperAZ ?l"
          by (simp add: dropWhile_append2)
        moreover have "set (dropWhile upperAZ ?l) \<subseteq> set ?l" by (meson set_dropWhileD subsetI)
        moreover have "\<forall>c\<in>set ?l. notUpperAZ c" by (meson set_takeWhileD)
        ultimately show ?thesis using 1 by auto
      next
        case 2
        then show ?thesis by (rule "1.IH"(2) [OF False nu])
      qed
    qed
  qed
qed

lemma segments_of_word:
  assumes "\<forall>c\<in>set (dropWhile upperAZ w). notUpperAZ c"
  shows "(case FindStringSubmatch acronymRegexp ([w, w] ! 0) of
            None \<Rightarrow> [[w, w] ! 0]
          | Some m \<Rightarrow> if length m = 3 then [m ! 1, m ! 2] else [[w, w] ! 0]) = specSegments w"
proof (cases "isAcronymWord w")
  case True
  from Find_acronym_Some [OF True] obtain whole where
    f: "FindStringSubmatch acronymRegexp w =
       Some [whole, butlast (takeWhile upperAZ w),
         last (takeWhile upperAZ w) # takeWhile notUpperAZ (dropWhile upperAZ w)]" ..
  have "takeWhile notUpperAZ (dropWhile upperAZ w) = dropWhile upperAZ w"
    using assms by (simp add: takeWhile_eq_all_conv)
  with f True show ?thesis by (simp add: specSegments_def isAcronymWord_def Let_def)
next
  case False
  from Find_acronym_None [OF assms False] False show ?thesis
    by (auto simp: specSegments_def isAcronymWord_def Let_def)
qed

lemma splitName_spec: "splitName name = specSplitName name"
proof (cases "specWords name = []")
  case True
  then have "name = []"
    by (cases "name = []") (auto simp: specWords.simps [of name] split: if_splits)
  with True show ?thesis
    by (simp add: splitName_def specSplitName_def FindAll_gather)
next
  case False
  have eq: "map ((\<lambda>words.
            (case FindStringSubmatch acronymRegexp (words ! 0) of
               None \<Rightarrow> [words ! 0]
             | Some m \<Rightarrow> if length m = 3 then [m ! 1, m ! 2] else [words ! 0])) \<circ>
          (\<lambda>w. [w, w])) (specWords name) = map specSegments (specWords name)"
    by (rule map_cong [OF refl]) (simp only: o_apply, rule segments_of_word, rule specWords_form)
  from False show ?thesis
    unfolding splitName_def specSplitName_def FindAll_gather Let_def map_map
    by (simp add: eq)
qed

lemma ToUpper_Nil: "ToUpper [] = []"
  by (simp add: ToUpper_def)

lemma split_example:
  "specWords ''MyISCSIVolume'' = [''My'', ''ISCSIVolume'']"
  "specSegments ''My'' = [''My'']"
  "specSegments ''ISCSIVolume'' = [''ISCSI'', ''Volume'']"
  "ToUpper ''My_ISCSI_Volume'' = ''MY_ISCSI_VOLUME''"
  by code_simp+

text \<open>
  Claim C4.  For every field name, the key with word splitting (lines 119 to 131) is the
  segments of the words of the name, in the spec's sense of words and segments, joined
  with underscores.  When word splitting is in effect for a field (by its tag, or by the
  option unless its tag says false) and the field has no alternate name, the key of the
  field is the prefix, if any, and that string, in upper case.  The field name
  \<^verbatim>\<open>MyISCSIVolume\<close> has the words \<^verbatim>\<open>My\<close> and \<^verbatim>\<open>ISCSIVolume\<close>, the segments \<^verbatim>\<open>My\<close>,
  \<^verbatim>\<open>ISCSI\<close> and \<^verbatim>\<open>Volume\<close>, and the key \<^verbatim>\<open>MY_ISCSI_VOLUME\<close>.
\<close>

theorem fieldKey_split_words:
  "splitName (FName ftype) = Join (concat (map specSegments (specWords (FName ftype)))) ''_'' \<and>
   ((isTrue (Get (Tag ftype) ''split_words'') \<or>
      SplitWords options \<and> \<not> isFalse (Get (Tag ftype) ''split_words'')) \<and>
     Get (Tag ftype) ''envconfig'' = [] \<longrightarrow>
   fieldKey prefix options ftype =
     ToUpper ((if prefix \<noteq> [] then prefix @ ''_'' else []) @
       Join (concat (map specSegments (specWords (FName ftype)))) ''_''))"
  by (auto simp: fieldKey_def Let_def ToUpper_Nil splitName_spec specSplitName_def)

theorem fieldKey_split_words_witness:
  "specWords ''MyISCSIVolume'' = [''My'', ''ISCSIVolume''] \<and>
   concat (map specSegments (specWords ''MyISCSIVolume'')) = [''My'', ''ISCSI'', ''Volume''] \<and>
   fieldKey [] (noOptions\<lparr>SplitWords := True\<rparr>)
     (StructField ''MyISCSIVolume'' (Basic String) [] False True) = ''MY_ISCSI_VOLUME''"
  using fieldKey_split_words [of "StructField ''MyISCSIVolume'' (Basic String) [] False True"
      "noOptions\<lparr>SplitWords := True\<rparr>" "[]"]
  by (simp add: split_example Get_def isFalse_def ParseBool_def noOptions_def)


section \<open>What gatherInfo returns\<close>

text \<open>
  Names for the parts of one round of the loop of \<^verbatim>\<open>gatherInfo\<close>: the descriptor made on
  lines 105 to 139 (\<open>leafInfo\<close>), the prefix passed to the recursive call on lines 145
  to 148 (\<open>innerPrefix\<close>), and a descriptor of a nested struct seen from the outer struct
  (\<open>rebase\<close>).  The loop never fails (lemma \<open>gather_total\<close>), so its two results have
  names as well: the descriptors (\<open>gathered\<close>) and the contents of the fields afterwards
  (\<open>allocated\<close>).
\<close>

definition leafInfo :: "string \<Rightarrow> Options \<Rightarrow> nat \<Rightarrow> StructField \<Rightarrow> nat \<Rightarrow> rtype \<Rightarrow> varInfo" where
  "leafInfo prefix options i ftype n t' =
     \<lparr>Name = FName ftype, Alt = ToUpper (Get (Tag ftype) ''envconfig''),
      Key = fieldKey prefix options ftype, Field = FieldAt i # replicate n Deref,
      FieldType = t', Tags = Tag ftype\<rparr>"

definition innerPrefix :: "string \<Rightarrow> Options \<Rightarrow> StructField \<Rightarrow> string" where
  "innerPrefix prefix options ftype =
     (if \<not> Anonymous ftype then fieldKey prefix options ftype else prefix)"

definition rebase :: "step list \<Rightarrow> varInfo \<Rightarrow> varInfo" where
  "rebase p e = e\<lparr>Field := p @ Field e\<rparr>"

definition gathered :: "ext \<Rightarrow> string \<Rightarrow> Options \<Rightarrow> nat \<Rightarrow> StructField list \<Rightarrow> val list \<Rightarrow> varInfo list" where
  "gathered X prefix options i ftypes fs =
     (case gatherFields X prefix options i ftypes fs of Inl e \<Rightarrow> [] | Inr (infos, fs') \<Rightarrow> infos)"

definition allocated :: "ext \<Rightarrow> string \<Rightarrow> Options \<Rightarrow> nat \<Rightarrow> StructField list \<Rightarrow> val list \<Rightarrow> val list" where
  "allocated X prefix options i ftypes fs =
     (case gatherFields X prefix options i ftypes fs of Inl e \<Rightarrow> [] | Inr (infos, fs') \<Rightarrow> fs')"

declare gatherFields.simps(3) [simp del]

lemma gatherInfo_PtrTo:
  "Kind t' = Struct \<Longrightarrow>
   gatherInfo X prefix (PtrTo t') (VPtr f') options =
     (case gatherFields X prefix options 0 (Fields t') (StructFields f') of
        Inl e \<Rightarrow> Inl e
      | Inr (infos, fs) \<Rightarrow> Inr (infos, VPtr (VStruct fs)))"
  by (simp add: gatherInfo.simps IsNil_def)

lemma gatherFields_Skip:
  assumes "\<not> Exported ftype \<or> isTrue (Get (Tag ftype) ''ignored'')"
  shows "gatherFields X prefix options i (ftype # ftypes) (f # fs) =
     (case gatherFields X prefix options (Suc i) ftypes fs of
        Inl e \<Rightarrow> Inl e
      | Inr (infos, fs') \<Rightarrow> Inr (infos, f # fs'))"
  using assms by (subst gatherFields.simps(3)) simp

lemma gatherFields_Leaf:
  assumes "Exported ftype" and "\<not> isTrue (Get (Tag ftype) ''ignored'')"
    and "ptrLoop (Type ftype) f = (n, t', f')" and "\<not> (Kind t' = Struct \<and> noInterface X t')"
  shows "gatherFields X prefix options i (ftype # ftypes) (f # fs) =
     (case gatherFields X prefix options (Suc i) ftypes fs of
        Inl e \<Rightarrow> Inl e
      | Inr (infos, fs') \<Rightarrow> Inr (leafInfo prefix options i ftype n t' # infos, nest n f' # fs'))"
  using assms
  by (subst gatherFields.simps(3)) (auto simp: leafInfo_def Let_def cong: sum.case_cong)

lemma gatherFields_Nested:
  assumes "Exported ftype" and "\<not> isTrue (Get (Tag ftype) ''ignored'')"
    and "ptrLoop (Type ftype) f = (n, t', f')" and "Kind t' = Struct" and "noInterface X t'"
  shows "gatherFields X prefix options i (ftype # ftypes) (f # fs) =
     (case gatherInfo X (innerPrefix prefix options ftype) (PtrTo t') (VPtr f') options of
        Inl e \<Rightarrow> Inl e
      | Inr (embeddedInfos, embedded) \<Rightarrow>
          (case gatherFields X prefix options (Suc i) ftypes fs of
             Inl e \<Rightarrow> Inl e
           | Inr (infos, fs') \<Rightarrow>
               Inr (map (rebase (FieldAt i # replicate n Deref)) embeddedInfos @ infos,
                    nest n (ElemV embedded) # fs')))"
  using assms
  by (subst gatherFields.simps(3))
     (simp add: innerPrefix_def rebase_def [abs_def] Let_def cong: sum.case_cong)

lemma gather_total:
  "(Kind t = Ptr \<longrightarrow> \<not> IsNil spec \<longrightarrow> Kind (Elem t) = Struct \<longrightarrow>
      (\<exists>r. gatherInfo X prefix t spec options = Inr r))"
  "\<exists>r. gatherFields X prefix' options' i ftypes fs = Inr r"
proof (induction X prefix t spec options and X prefix' options' i ftypes fs
    rule: gatherInfo_gatherFields.induct)
  case (1 X prefix t spec options)
  then show ?case by (auto simp: gatherInfo.simps split: sum.splits)
next
  case (2 X prefix options i fs)
  show ?case by simp
next
  case (3 X prefix options i ftype ftypes)
  show ?case by simp
next
  case (4 X prefix options i ftype ftypes f fs)
  show ?case
  proof (cases "\<not> Exported ftype \<or> isTrue (Get (Tag ftype) ''ignored'')")
    case True
    from 4(1) [OF True] obtain r' where "gatherFields X prefix options (Suc i) ftypes fs = Inr r'" ..
    then show ?thesis by (cases r') (simp add: gatherFields_Skip [OF True])
  next
    case False
    then have ex: "Exported ftype" and ni: "\<not> isTrue (Get (Tag ftype) ''ignored'')" by simp_all
    obtain n t' f' where pl: "ptrLoop (Type ftype) f = (n, t', f')" by (cases "ptrLoop (Type ftype) f")
    show ?thesis
    proof (cases "Kind t' = Struct \<and> noInterface X t'")
      case nested: True
      from 4(2) [OF False pl [symmetric] refl refl nested] nested
      obtain b where b: "gatherInfo X (innerPrefix prefix options ftype) (PtrTo t') (VPtr f') options = Inr b"
        by (auto simp: IsNil_def innerPrefix_def split: if_splits)
      obtain es emb where r: "b = (es, emb)" by (cases b)
      have b': "gatherInfo X
           (if \<not> Anonymous ftype
            then Key \<lparr>Name = FName ftype, Alt = ToUpper (Get (Tag ftype) ''envconfig''),
                     Key = fieldKey prefix options ftype, Field = FieldAt i # replicate n Deref,
                     FieldType = t', Tags = Tag ftype\<rparr>
            else prefix) (PtrTo t') (VPtr f') options = Inr b"
        using b by (simp add: innerPrefix_def split: if_splits)
      from 4(3) [OF False pl [symmetric] refl refl nested b' r [symmetric]]
      obtain r' where r': "gatherFields X prefix options (Suc i) ftypes fs = Inr r'" ..
      from nested have k: "Kind t' = Struct" and no: "noInterface X t'" by simp_all
      show ?thesis
        by (cases r') (simp add: gatherFields_Nested [OF ex ni pl k no] b r r')
    next
      case leaf: False
      from 4(4) [OF False pl [symmetric] refl refl leaf]
      obtain r' where r': "gatherFields X prefix options (Suc i) ftypes fs = Inr r'" ..
      show ?thesis
        by (cases r') (simp add: gatherFields_Leaf [OF ex ni pl leaf] r')
    qed
  qed
qed


lemma gatherFields_induct [case_names Nil NoValue Skip Leaf Nested]:
  assumes Nil: "\<And>prefix i fs. Q prefix i [] fs"
    and NoValue: "\<And>prefix i ftype ftypes. Q prefix i (ftype # ftypes) []"
    and Skip: "\<And>prefix i ftype ftypes f fs.
       \<not> Exported ftype \<or> isTrue (Get (Tag ftype) ''ignored'') \<Longrightarrow>
       Q prefix (Suc i) ftypes fs \<Longrightarrow> Q prefix i (ftype # ftypes) (f # fs)"
    and Leaf: "\<And>prefix i ftype ftypes f fs n t' f'.
       Exported ftype \<Longrightarrow> \<not> isTrue (Get (Tag ftype) ''ignored'') \<Longrightarrow>
       ptrLoop (Type ftype) f = (n, t', f') \<Longrightarrow> \<not> (Kind t' = Struct \<and> noInterface X t') \<Longrightarrow>
       Q prefix (Suc i) ftypes fs \<Longrightarrow> Q prefix i (ftype # ftypes) (f # fs)"
    and Nested: "\<And>prefix i ftype ftypes f fs n t' f'.
       Exported ftype \<Longrightarrow> \<not> isTrue (Get (Tag ftype) ''ignored'') \<Longrightarrow>
       ptrLoop (Type ftype) f = (n, t', f') \<Longrightarrow> Kind t' = Struct \<Longrightarrow> noInterface X t' \<Longrightarrow>
       Q (innerPrefix prefix options ftype) 0 (Fields t') (StructFields f') \<Longrightarrow>
       Q prefix (Suc i) ftypes fs \<Longrightarrow> Q prefix i (ftype # ftypes) (f # fs)"
  shows "Q prefix i ftypes fs"
proof -
  have "X' = X \<longrightarrow> options' = options \<longrightarrow> Q prefix i ftypes fs" for X' options'
  proof (rule gatherInfo_gatherFields.induct(2) [where
      P = "\<lambda>X' prefix t spec options'. X' = X \<longrightarrow> options' = options \<longrightarrow>
             Kind t = Ptr \<longrightarrow> \<not> IsNil spec \<longrightarrow> Kind (Elem t) = Struct \<longrightarrow>
             Q prefix 0 (Fields (Elem t)) (StructFields (ElemV spec))"
      and Q = "\<lambda>X' prefix options' i ftypes fs. X' = X \<longrightarrow> options' = options \<longrightarrow>
             Q prefix i ftypes fs"],
    goal_cases)
    case (1 X' prefix t spec options')
    then show ?case by simp
  next
    case (2 X' prefix options' i fs)
    show ?case by (simp add: Nil)
  next
    case (3 X' prefix options' i ftype ftypes)
    show ?case by (simp add: NoValue)
  next
    case (4 X' prefix options' i ftype ftypes f fs)
    show ?case
    proof (intro impI)
      assume X': "X' = X" and o': "options' = options"
      show "Q prefix i (ftype # ftypes) (f # fs)"
      proof (cases "\<not> Exported ftype \<or> isTrue (Get (Tag ftype) ''ignored'')")
        case True
        from 4(1) [OF True] X' o' have "Q prefix (Suc i) ftypes fs" by simp
        with True show ?thesis by (rule Skip)
      next
        case False
        then have ex: "Exported ftype" and ni: "\<not> isTrue (Get (Tag ftype) ''ignored'')" by simp_all
        obtain n t' f' where pl: "ptrLoop (Type ftype) f = (n, t', f')"
          by (cases "ptrLoop (Type ftype) f")
        show ?thesis
        proof (cases "Kind t' = Struct \<and> noInterface X' t'")
          case nested: True
          then have k: "Kind t' = Struct" and no: "noInterface X t'" using X' by simp_all
          from 4(2) [OF False pl [symmetric] refl refl nested] X' o' k
          have inner: "Q (innerPrefix prefix options ftype) 0 (Fields t') (StructFields f')"
            by (simp add: IsNil_def innerPrefix_def split: if_splits)
          let ?p = "if \<not> Anonymous ftype
              then Key \<lparr>Name = FName ftype, Alt = ToUpper (Get (Tag ftype) ''envconfig''),
                       Key = fieldKey prefix options' ftype, Field = FieldAt i # replicate n Deref,
                       FieldType = t', Tags = Tag ftype\<rparr>
              else prefix"
          have "\<exists>b. gatherInfo X' ?p (PtrTo t') (VPtr f') options' = Inr b"
            using gather_total(1) [of "PtrTo t'" "VPtr f'" X' ?p options'] k
            by (simp only: Kind.simps Elem.simps IsNil_def val.distinct simp_thms)
          then obtain b where b: "gatherInfo X' ?p (PtrTo t') (VPtr f') options' = Inr b" ..
          from 4(3) [OF False pl [symmetric] refl refl nested b surjective_pairing [symmetric]] X' o'
          have "Q prefix (Suc i) ftypes fs" by simp
          with ex ni pl k no inner show ?thesis by (intro Nested)
        next
          case leaf: False
          from 4(4) [OF False pl [symmetric] refl refl leaf] X' o'
          have "Q prefix (Suc i) ftypes fs" by simp
          with ex ni pl leaf X' show ?thesis by (intro Leaf) auto
        qed
      qed
    qed
  qed
  from this [of X options] show ?thesis by simp
qed

lemma gatherFields_eq:
  "gatherFields X prefix options i ftypes fs =
     Inr (gathered X prefix options i ftypes fs, allocated X prefix options i ftypes fs)"
  using gather_total(2) [of X prefix options i ftypes fs]
  by (auto simp: gathered_def allocated_def)

lemma gatherInfo_eq:
  "Kind t' = Struct \<Longrightarrow>
   gatherInfo X prefix (PtrTo t') (VPtr f') options =
     Inr (gathered X prefix options 0 (Fields t') (StructFields f'),
          VPtr (VStruct (allocated X prefix options 0 (Fields t') (StructFields f'))))"
  by (simp add: gatherInfo_PtrTo gatherFields_eq)

lemma gathered_simps:
  "gathered X prefix options i [] fs = []"
  "gathered X prefix options i (ftype # ftypes) [] = []"
  "allocated X prefix options i [] fs = fs"
  "allocated X prefix options i (ftype # ftypes) [] = []"
  by (simp_all add: gathered_def allocated_def)

lemma gathered_Skip:
  assumes "\<not> Exported ftype \<or> isTrue (Get (Tag ftype) ''ignored'')"
  shows "gathered X prefix options i (ftype # ftypes) (f # fs) =
           gathered X prefix options (Suc i) ftypes fs"
    and "allocated X prefix options i (ftype # ftypes) (f # fs) =
           f # allocated X prefix options (Suc i) ftypes fs"
  using gatherFields_Skip [OF assms, of X prefix options i ftypes f fs]
  by (simp_all add: gatherFields_eq)

lemma gathered_Leaf:
  assumes "Exported ftype" and "\<not> isTrue (Get (Tag ftype) ''ignored'')"
    and "ptrLoop (Type ftype) f = (n, t', f')" and "\<not> (Kind t' = Struct \<and> noInterface X t')"
  shows "gathered X prefix options i (ftype # ftypes) (f # fs) =
           leafInfo prefix options i ftype n t' # gathered X prefix options (Suc i) ftypes fs"
    and "allocated X prefix options i (ftype # ftypes) (f # fs) =
           nest n f' # allocated X prefix options (Suc i) ftypes fs"
  using gatherFields_Leaf [OF assms, of prefix options i ftypes fs]
  by (simp_all add: gatherFields_eq)

lemma gathered_Nested:
  assumes "Exported ftype" and "\<not> isTrue (Get (Tag ftype) ''ignored'')"
    and "ptrLoop (Type ftype) f = (n, t', f')" and "Kind t' = Struct" and "noInterface X t'"
  shows "gathered X prefix options i (ftype # ftypes) (f # fs) =
           map (rebase (FieldAt i # replicate n Deref))
             (gathered X (innerPrefix prefix options ftype) options 0 (Fields t') (StructFields f')) @
           gathered X prefix options (Suc i) ftypes fs"
    and "allocated X prefix options i (ftype # ftypes) (f # fs) =
           nest n (VStruct (allocated X (innerPrefix prefix options ftype) options 0 (Fields t')
             (StructFields f'))) #
           allocated X prefix options (Suc i) ftypes fs"
  using gatherFields_Nested [OF assms, of prefix options i ftypes fs]
  by (simp_all add: gatherFields_eq gatherInfo_eq [OF assms(4)])


section \<open>Sequential processing\<close>

text \<open>
  Two ways into a struct are disjoint when they part at some step: neither variable is
  inside the other.  The descriptors of one call of \<^verbatim>\<open>gatherInfo\<close> lead to variables
  that are disjoint two by two (lemma \<open>gathered_disjoint\<close>), and \<^verbatim>\<open>processInfo\<close> writes
  to the variable of its descriptor only (lemma \<open>processInfo_frame\<close>).
\<close>

fun disjointWays :: "step list \<Rightarrow> step list \<Rightarrow> bool" where
  "disjointWays (a # p) (b # q) = (a \<noteq> b \<or> disjointWays p q)"
| "disjointWays p q = False"

lemma disjointWays_sym: "disjointWays p q = disjointWays q p"
  by (induction p q rule: disjointWays.induct) auto

lemma disjointWays_append: "disjointWays (p @ a) (p @ b) = disjointWays a b"
  by (induction p) auto

lemma getAt_setAt_disjoint: "disjointWays p q \<Longrightarrow> getAt q (setAt p x v) = getAt q v"
proof (induction p x v arbitrary: q rule: setAt.induct)
  case (1 x v)
  then show ?case by simp
next
  case (2 i p x fs)
  then obtain b q' where q: "q = b # q'" by (cases q) auto
  show ?case
  proof (cases b)
    case (FieldAt j)
    with 2 q show ?thesis by (cases "i = j") (auto simp: nth_list_update)
  next
    case Deref
    with q show ?thesis by simp
  qed
next
  case (3 p x v)
  then obtain b q' where q: "q = b # q'" by (cases q) auto
  show ?case
  proof (cases b)
    case (FieldAt j)
    with q show ?thesis by simp
  next
    case Deref
    with 3 q show ?thesis by simp
  qed
qed simp_all

lemma gathered_ways:
  "info \<in> set (gathered X prefix options i ftypes fs) \<Longrightarrow>
   \<exists>j rest. Field info = FieldAt j # rest \<and> i \<le> j"
proof (induction prefix i ftypes fs rule: gatherFields_induct [where X = X and options = options])
  case (Nil prefix i fs)
  then show ?case by (simp add: gathered_simps)
next
  case (NoValue prefix i ftype ftypes)
  then show ?case by (simp add: gathered_simps)
next
  case (Skip prefix i ftype ftypes f fs)
  from Skip.prems Skip.IH show ?case
    by (auto simp: gathered_Skip(1) [OF Skip.hyps] intro: Suc_leD)
next
  case (Leaf prefix i ftype ftypes f fs n t' f')
  from Leaf.prems Leaf.IH show ?case
    by (auto simp: gathered_Leaf(1) [OF Leaf.hyps] leafInfo_def intro: Suc_leD)
next
  case (Nested prefix i ftype ftypes f fs n t' f')
  from Nested.prems Nested.IH(2) show ?case
    by (auto simp: gathered_Nested(1) [OF Nested.hyps] rebase_def intro: Suc_leD)
qed


lemma gathered_disjoint:
  "sorted_wrt disjointWays (map Field (gathered X prefix options i ftypes fs))"
proof (induction prefix i ftypes fs rule: gatherFields_induct [where X = X and options = options])
  case (Nil prefix i fs)
  then show ?case by (simp add: gathered_simps)
next
  case (NoValue prefix i ftype ftypes)
  then show ?case by (simp add: gathered_simps)
next
  case (Skip prefix i ftype ftypes f fs)
  then show ?case by (simp add: gathered_Skip(1) [OF Skip.hyps])
next
  case (Leaf prefix i ftype ftypes f fs n t' f')
  have "disjointWays (FieldAt i # replicate n Deref) (Field r)"
    if "r \<in> set (gathered X prefix options (Suc i) ftypes fs)" for r
    using gathered_ways [OF that] by auto
  with Leaf.IH show ?case
    by (simp add: gathered_Leaf(1) [OF Leaf.hyps] leafInfo_def)
next
  case (Nested prefix i ftype ftypes f fs n t' f')
  let ?inner = "gathered X (innerPrefix prefix options ftype) options 0 (Fields t') (StructFields f')"
  let ?P = "FieldAt i # replicate n Deref"
  have cross: "disjointWays (Field (rebase ?P e)) (Field r)"
    if "r \<in> set (gathered X prefix options (Suc i) ftypes fs)" for r e
    using gathered_ways [OF that] by (auto simp: rebase_def)
  have "sorted_wrt disjointWays (map Field (map (rebase ?P) ?inner))"
    using Nested.IH(1)
    by (simp add: sorted_wrt_map rebase_def disjointWays_append [of ?P, simplified])
  with Nested.IH(2) cross show ?case
    by (simp add: gathered_Nested(1) [OF Nested.hyps] sorted_wrt_append)
qed

lemma convertField_frame:
  "disjointWays (Field info) q \<Longrightarrow> getAt q (fst (convertField X info value s)) = getAt q s"
  by (auto simp: convertField_def getAt_setAt_disjoint split: option.splits prod.splits err.splits)

lemma processInfo_frame:
  "disjointWays (Field info) q \<Longrightarrow> getAt q (fst (processInfo X env info options s)) = getAt q s"
  by (auto simp: processInfo_def Let_def convertField_frame split: prod.splits)

lemma processInfos_frame:
  "\<forall>info\<in>set infos. disjointWays (Field info) q \<Longrightarrow>
   getAt q (fst (processInfos X env infos options s)) = getAt q s"
proof (induction infos arbitrary: s)
  case Nil
  then show ?case by simp
next
  case (Cons info infos)
  obtain s' r where p: "processInfo X env info options s = (s', r)"
    by (cases "processInfo X env info options s")
  from Cons.prems have "getAt q (fst (processInfo X env info options s)) = getAt q s"
    by (intro processInfo_frame) simp
  with p have s': "getAt q s' = getAt q s" by simp
  show ?case
  proof (cases r)
    case None
    with p Cons.IH [of s'] Cons.prems s' show ?thesis by simp
  next
    case (Some e)
    with p s' show ?thesis by simp
  qed
qed

lemma processInfos_append:
  "processInfos X env (xs @ ys) options s =
     (case processInfos X env xs options s of
        (s', None) \<Rightarrow> processInfos X env ys options s'
      | (s', Some e) \<Rightarrow> (s', Some e))"
  by (induction xs arbitrary: s) (auto split: prod.splits option.splits)


lemma gatherInfo_Inr:
  assumes "gatherInfo X prefix t spec options = Inr (infos, spec')"
  shows "infos = gathered X prefix options 0 (Fields (Elem t)) (StructFields (ElemV spec))"
    and "spec' = VPtr (VStruct (allocated X prefix options 0 (Fields (Elem t)) (StructFields (ElemV spec))))"
  using assms by (auto simp: gatherInfo.simps gatherFields_eq split: if_splits)

text \<open>
  Claim C7.  Without parallel execution, \<^verbatim>\<open>ProcessWithOptions\<close> takes the descriptors in
  the order \<^verbatim>\<open>gatherInfo\<close> returned them.  When the descriptors before \<open>info\<close> are resolved
  without an error and \<open>info\<close> fails, the call returns that error at once: the result is
  the state right after \<open>info\<close>.  In it, the variable of every later descriptor holds what
  it held after \<^verbatim>\<open>gatherInfo\<close>, and the variable of every earlier descriptor holds what
  it held right after that descriptor was resolved.
\<close>

theorem sequential_fail_fast:
  assumes "gatherInfo X prefix t spec options = Inr (infos, spec')"
    and "\<not> ParallelExcecution options"
    and "infos = pre @ info # post"
    and "processInfos X env pre options (ElemV spec') = (s1, None)"
    and "processInfo X env info options s1 = (s2, Some e)"
  shows "ProcessWithOptions X env prefix t spec options = {(VPtr s2, Some e)} \<and>
    (\<forall>j\<in>set post. getAt (Field j) s2 = getAt (Field j) (ElemV spec')) \<and>
    (\<forall>k<length pre. getAt (Field (pre ! k)) s2 =
        getAt (Field (pre ! k)) (fst (processInfos X env (take (Suc k) pre) options (ElemV spec'))))"
proof (intro conjI ballI allI impI)
  have "processInfos X env infos options (ElemV spec') = (s2, Some e)"
    unfolding assms(3) processInfos_append using assms(4,5) by simp
  with assms(1,2) show "ProcessWithOptions X env prefix t spec options = {(VPtr s2, Some e)}"
    by (simp add: ProcessWithOptions_def)
next
  have sorted: "sorted_wrt disjointWays (map Field (pre @ info # post))"
    using gathered_disjoint [of X prefix options 0 "Fields (Elem t)" "StructFields (ElemV spec)"]
      gatherInfo_Inr(1) [OF assms(1)] assms(3) by simp
  have s1: "s1 = fst (processInfos X env pre options (ElemV spec'))"
    and s2: "s2 = fst (processInfo X env info options s1)"
    using assms(4,5) by simp_all
  {
    fix j assume j: "j \<in> set post"
    from sorted j have "disjointWays (Field info) (Field j)"
      and "\<forall>p\<in>set pre. disjointWays (Field p) (Field j)"
      by (auto simp: sorted_wrt_append)
    then show "getAt (Field j) s2 = getAt (Field j) (ElemV spec')"
      unfolding s2 s1 by (simp add: processInfo_frame processInfos_frame)
  }
  {
    fix k assume k: "k < length pre"
    let ?a = "take (Suc k) pre" and ?b = "drop (Suc k) pre"
    let ?q = "Field (pre ! k)"
    have pre: "pre = ?a @ ?b" by simp
    from k have last_a: "pre ! k \<in> set ?a"
      by (metis in_set_conv_nth length_take lessI min_less_iff_conj nth_take)
    from sorted have "sorted_wrt disjointWays (map Field ((?a @ ?b) @ info # post))" by simp
    then have "\<forall>x\<in>set ?a. \<forall>y\<in>set ?b \<union> {info}. disjointWays (Field x) (Field y)"
      unfolding map_append sorted_wrt_append by auto
    with last_a have d: "\<forall>y\<in>set ?b \<union> {info}. disjointWays (Field y) ?q"
      by (auto simp: disjointWays_sym)
    obtain sa ra where a: "processInfos X env ?a options (ElemV spec') = (sa, ra)"
      by (cases "processInfos X env ?a options (ElemV spec')")
    from assms(4) have "processInfos X env (?a @ ?b) options (ElemV spec') = (s1, None)" by simp
    with a have b: "processInfos X env ?b options sa = (s1, None)"
      unfolding processInfos_append by (cases ra) auto
    have "getAt ?q s1 = getAt ?q sa"
      using processInfos_frame [of ?b ?q X env options sa] d b by simp
    moreover have "getAt ?q s2 = getAt ?q s1"
      unfolding s2 using d by (simp add: processInfo_frame)
    ultimately show "getAt ?q s2 =
        getAt ?q (fst (processInfos X env (take (Suc k) pre) options (ElemV spec')))"
      using a by simp
  }
qed


text \<open>An example: a struct of three integers, the second of which is set to no number.\<close>

definition threeInts :: rtype where
  "threeInts =
     StructOf [StructField ''A'' (Basic IntKind) [] False True,
               StructField ''B'' (Basic IntKind) [] False True,
               StructField ''C'' (Basic IntKind) [] False True]"

definition intInfo :: "string \<Rightarrow> nat \<Rightarrow> varInfo" where
  "intInfo name i =
     \<lparr>Name = name, Alt = [], Key = name, Field = [FieldAt i], FieldType = Basic IntKind, Tags = []\<rparr>"

lemma ToUpper_ABC: "ToUpper ''A'' = ''A''" "ToUpper ''B'' = ''B''" "ToUpper ''C'' = ''C''"
  by (simp_all add: ToUpper_def toUpperByte_def byte_def)

lemma threeInts_gather:
  "gatherInfo exampleExt [] (PtrTo threeInts) (VPtr (VStruct [VInt 0, VInt 0, VInt 7])) noOptions =
     Inr ([intInfo ''A'' 0] @ intInfo ''B'' 1 # [intInfo ''C'' 2], VPtr (VStruct [VInt 0, VInt 0, VInt 7]))"
  by (simp add: gatherInfo.simps gatherFields.simps(3) ptrLoop.simps threeInts_def intInfo_def
      IsNil_def fieldKey_def Get_def isTrue_def isFalse_def ParseBool_def noOptions_def
      ToUpper_ABC ToUpper_Nil)

lemma processField_example_bad_int:
  "processField exampleExt ''x'' (Basic IntKind) field = (field, Some (NumError ''ParseInt'' ''x''))"
  unfolding processField_noInterface [OF noInterface_exampleExt]
  by (simp add: coerceByKind.simps exampleExt_def Bits_def digitsOf_def byte_def)

lemma processField_example_one:
  "processField exampleExt ''1'' (Basic IntKind) field = (VInt 1, None)"
  unfolding processField_noInterface [OF noInterface_exampleExt]
  by (simp add: coerceByKind.simps exampleExt_def Bits_def SetInt_def digitsOf_def byte_def)

lemma threeInts_first:
  "processInfos exampleExt [''A'' \<mapsto> ''1'', ''B'' \<mapsto> ''x'', ''C'' \<mapsto> ''3''] [intInfo ''A'' 0] noOptions
     (ElemV (VPtr (VStruct [VInt 0, VInt 0, VInt 7]))) = (VStruct [VInt 1, VInt 0, VInt 7], None)"
  by (simp add: processInfo_def lookupEnv_def intInfo_def Get_def convertField_def
      processField_example_one)

lemma threeInts_second:
  "processInfo exampleExt [''A'' \<mapsto> ''1'', ''B'' \<mapsto> ''x'', ''C'' \<mapsto> ''3''] (intInfo ''B'' 1) noOptions
     (VStruct [VInt 1, VInt 0, VInt 7]) =
     (VStruct [VInt 1, VInt 0, VInt 7],
      Some (ParseError ''B'' ''B'' (Basic IntKind) ''x'' (NumError ''ParseInt'' ''x'')))"
  by (simp add: processInfo_def lookupEnv_def intInfo_def Get_def convertField_def
      processField_example_bad_int)

theorem sequential_fail_fast_witness:
  "ProcessWithOptions exampleExt [''A'' \<mapsto> ''1'', ''B'' \<mapsto> ''x'', ''C'' \<mapsto> ''3''] []
      (PtrTo threeInts) (VPtr (VStruct [VInt 0, VInt 0, VInt 7])) noOptions =
     {(VPtr (VStruct [VInt 1, VInt 0, VInt 7]),
       Some (ParseError ''B'' ''B'' (Basic IntKind) ''x'' (NumError ''ParseInt'' ''x'')))} \<and>
   getAt [FieldAt 2] (VStruct [VInt 1, VInt 0, VInt 7]) = Some (VInt 7) \<and>
   getAt [FieldAt 0] (VStruct [VInt 1, VInt 0, VInt 7]) = Some (VInt 1)"
  using sequential_fail_fast [OF threeInts_gather _ refl threeInts_first threeInts_second]
  by (simp add: noOptions_def)


section \<open>Nested structs\<close>

lemma gathered_append:
  "length pre = length vpre \<Longrightarrow>
   gathered X prefix options i (pre @ rest) (vpre @ vrest) =
     gathered X prefix options i pre vpre @ gathered X prefix options (i + length pre) rest vrest \<and>
   allocated X prefix options i (pre @ rest) (vpre @ vrest) =
     allocated X prefix options i pre vpre @ allocated X prefix options (i + length pre) rest vrest"
proof (induction pre vpre arbitrary: i rule: list_induct2)
  case Nil
  then show ?case by (simp add: gathered_simps)
next
  case (Cons ftype pre f vpre)
  note IH = Cons.IH [of "Suc i"]
  show ?case
  proof (cases "\<not> Exported ftype \<or> isTrue (Get (Tag ftype) ''ignored'')")
    case True
    from IH show ?thesis by (simp add: gathered_Skip [OF True])
  next
    case False
    then have ex: "Exported ftype" and ni: "\<not> isTrue (Get (Tag ftype) ''ignored'')" by simp_all
    obtain n t' f' where pl: "ptrLoop (Type ftype) f = (n, t', f')" by (cases "ptrLoop (Type ftype) f")
    show ?thesis
    proof (cases "Kind t' = Struct \<and> noInterface X t'")
      case True
      then have k: "Kind t' = Struct" and no: "noInterface X t'" by simp_all
      from IH show ?thesis by (simp add: gathered_Nested [OF ex ni pl k no])
    next
      case False
      from IH show ?thesis by (simp add: gathered_Leaf [OF ex ni pl False])
    qed
  qed
qed


lemma gathered_ways_bound:
  "info \<in> set (gathered X prefix options i ftypes fs) \<Longrightarrow>
   \<exists>j rest. Field info = FieldAt j # rest \<and> i \<le> j \<and> j < i + length ftypes"
proof (induction prefix i ftypes fs rule: gatherFields_induct [where X = X and options = options])
  case (Nil prefix i fs)
  then show ?case by (simp add: gathered_simps)
next
  case (NoValue prefix i ftype ftypes)
  then show ?case by (simp add: gathered_simps)
next
  case (Skip prefix i ftype ftypes f fs)
  from Skip.prems Skip.IH show ?case
    by (fastforce simp: gathered_Skip(1) [OF Skip.hyps])
next
  case (Leaf prefix i ftype ftypes f fs n t' f')
  from Leaf.prems Leaf.IH show ?case
    by (fastforce simp: gathered_Leaf(1) [OF Leaf.hyps] leafInfo_def)
next
  case (Nested prefix i ftype ftypes f fs n t' f')
  from Nested.prems Nested.IH(2) show ?case
    by (fastforce simp: gathered_Nested(1) [OF Nested.hyps] rebase_def)
qed

text \<open>
  Claim C2.  Take a field of a struct (after the fields \<open>pre\<close>, before the fields \<open>post\<close>)
  that can be set and is not ignored, and that after the pointer loop is a struct whose
  type has none of the four interfaces.  Then \<^verbatim>\<open>gatherInfo\<close> returns, between the
  descriptors of the fields before and those of the fields after, the descriptors that
  the recursive call returns for the nested struct, continued from the way to the field.
  The recursive call runs with the field's own key as its prefix when the field is
  named, and with the prefix of the outer call when the field is anonymous.  No
  descriptor of the result leads to the field itself.
\<close>

theorem nested_struct_replaced:
  assumes "length pre = length vpre"
    and "Exported ftype" and "\<not> isTrue (Get (Tag ftype) ''ignored'')"
    and "ptrLoop (Type ftype) f = (n, t', f')" and "Kind t' = Struct" and "noInterface X t'"
  shows "gatherInfo X prefix (PtrTo (StructOf (pre @ ftype # post)))
           (VPtr (VStruct (vpre @ f # vpost))) options =
         Inr (gathered X prefix options 0 pre vpre @
              map (rebase (FieldAt (length pre) # replicate n Deref))
                (gathered X (if Anonymous ftype then prefix else fieldKey prefix options ftype)
                   options 0 (Fields t') (StructFields f')) @
              gathered X prefix options (Suc (length pre)) post vpost,
              VPtr (VStruct (allocated X prefix options 0 pre vpre @
                nest n (VStruct (allocated X
                   (if Anonymous ftype then prefix else fieldKey prefix options ftype)
                   options 0 (Fields t') (StructFields f'))) #
                allocated X prefix options (Suc (length pre)) post vpost))) \<and>
       gatherInfo X (if Anonymous ftype then prefix else fieldKey prefix options ftype)
           (PtrTo t') (VPtr f') options =
         Inr (gathered X (if Anonymous ftype then prefix else fieldKey prefix options ftype)
                options 0 (Fields t') (StructFields f'),
              VPtr (VStruct (allocated X
                (if Anonymous ftype then prefix else fieldKey prefix options ftype)
                options 0 (Fields t') (StructFields f')))) \<and>
       (\<forall>info\<in>set (gathered X prefix options 0 pre vpre @
              map (rebase (FieldAt (length pre) # replicate n Deref))
                (gathered X (if Anonymous ftype then prefix else fieldKey prefix options ftype)
                   options 0 (Fields t') (StructFields f')) @
              gathered X prefix options (Suc (length pre)) post vpost).
          Field info \<noteq> FieldAt (length pre) # replicate n Deref)"
proof (intro conjI ballI)
  let ?inner = "if Anonymous ftype then prefix else fieldKey prefix options ftype"
  have ip: "innerPrefix prefix options ftype = ?inner" by (simp add: innerPrefix_def)
  show "gatherInfo X prefix (PtrTo (StructOf (pre @ ftype # post)))
           (VPtr (VStruct (vpre @ f # vpost))) options =
         Inr (gathered X prefix options 0 pre vpre @
              map (rebase (FieldAt (length pre) # replicate n Deref))
                (gathered X ?inner options 0 (Fields t') (StructFields f')) @
              gathered X prefix options (Suc (length pre)) post vpost,
              VPtr (VStruct (allocated X prefix options 0 pre vpre @
                nest n (VStruct (allocated X ?inner options 0 (Fields t') (StructFields f'))) #
                allocated X prefix options (Suc (length pre)) post vpost)))"
    using gathered_append [OF assms(1), of X prefix options 0 "ftype # post" "f # vpost"]
    by (simp add: gatherInfo_eq gathered_Nested [OF assms(2-6)] ip)
  show "gatherInfo X ?inner (PtrTo t') (VPtr f') options =
         Inr (gathered X ?inner options 0 (Fields t') (StructFields f'),
              VPtr (VStruct (allocated X ?inner options 0 (Fields t') (StructFields f'))))"
    by (rule gatherInfo_eq [OF assms(5)])
  fix info
  assume "info \<in> set (gathered X prefix options 0 pre vpre @
              map (rebase (FieldAt (length pre) # replicate n Deref))
                (gathered X ?inner options 0 (Fields t') (StructFields f')) @
              gathered X prefix options (Suc (length pre)) post vpost)"
  then consider "info \<in> set (gathered X prefix options 0 pre vpre)"
    | e where "e \<in> set (gathered X ?inner options 0 (Fields t') (StructFields f'))"
        "info = rebase (FieldAt (length pre) # replicate n Deref) e"
    | "info \<in> set (gathered X prefix options (Suc (length pre)) post vpost)"
    by auto
  then show "Field info \<noteq> FieldAt (length pre) # replicate n Deref"
  proof cases
    case 1
    from gathered_ways_bound [OF 1] show ?thesis by auto
  next
    case 2
    from gathered_ways_bound [OF 2(1)] 2(2) show ?thesis by (auto simp: rebase_def)
  next
    case 3
    from gathered_ways_bound [OF 3] show ?thesis by auto
  qed
qed


text \<open>
  An example: a struct with a named field that points to a struct, and an embedded struct.
\<close>

definition innerT :: rtype where
  "innerT = StructOf [StructField ''X'' (Basic IntKind) [] False True]"

definition baseT :: rtype where
  "baseT = Named ''main'' ''Base'' (StructOf [StructField ''Y'' (Basic String) [] False True])"

definition innerField :: StructField where
  "innerField = StructField ''Inner'' (PtrTo innerT) [] False True"

definition baseField :: StructField where
  "baseField = StructField ''Base'' baseT [] True True"

lemma ToUpper_example_keys:
  "ToUpper ''app_Inner'' = ''APP_INNER''" "ToUpper ''APP_INNER_X'' = ''APP_INNER_X''"
  "ToUpper ''app_Base'' = ''APP_BASE''" "ToUpper ''app_Y'' = ''APP_Y''"
  by code_simp+

lemma innerField_facts:
  "length ([] :: StructField list) = length ([] :: val list)"
  "Exported innerField" "\<not> isTrue (Get (Tag innerField) ''ignored'')"
  "ptrLoop (Type innerField) VNil = (1, innerT, VStruct [VInt 0])"
  "Kind innerT = Struct"
  by (simp_all add: innerField_def innerT_def Get_def isTrue_def ParseBool_def ptrLoop.simps IsNil_def)

lemma outer_gather:
  "gatherInfo exampleExt ''app'' (PtrTo (StructOf ([] @ innerField # [baseField])))
      (VPtr (VStruct ([] @ VNil # [VStruct [VString []]]))) noOptions =
   Inr ([\<lparr>Name = ''X'', Alt = [], Key = ''APP_INNER_X'', Field = [FieldAt 0, Deref, FieldAt 0],
           FieldType = Basic IntKind, Tags = []\<rparr>,
         \<lparr>Name = ''Y'', Alt = [], Key = ''APP_Y'', Field = [FieldAt 1, FieldAt 0],
           FieldType = Basic String, Tags = []\<rparr>],
        VPtr (VStruct [VPtr (VStruct [VInt 0]), VStruct [VString []]]))"
  by (simp add: gatherInfo.simps gatherFields.simps(3) ptrLoop.simps innerField_def baseField_def
      innerT_def baseT_def IsNil_def fieldKey_def Get_def isTrue_def isFalse_def ParseBool_def
      noOptions_def ToUpper_example_keys ToUpper_Nil noInterface_exampleExt)

theorem nested_struct_replaced_witness:
  "gatherInfo exampleExt ''app'' (PtrTo (StructOf ([] @ innerField # [baseField])))
      (VPtr (VStruct ([] @ VNil # [VStruct [VString []]]))) noOptions =
   Inr ([\<lparr>Name = ''X'', Alt = [], Key = ''APP_INNER_X'', Field = [FieldAt 0, Deref, FieldAt 0],
           FieldType = Basic IntKind, Tags = []\<rparr>,
         \<lparr>Name = ''Y'', Alt = [], Key = ''APP_Y'', Field = [FieldAt 1, FieldAt 0],
           FieldType = Basic String, Tags = []\<rparr>],
        VPtr (VStruct [VPtr (VStruct [VInt 0]), VStruct [VString []]]))"
  using nested_struct_replaced [where prefix = "''app''" and options = noOptions
      and post = "[baseField]" and vpost = "[VStruct [VString []]]",
      OF innerField_facts noInterface_exampleExt]
    outer_gather
  by simp


section \<open>Nothing set in the environment\<close>

text \<open>
  A descriptor is unset when \<^verbatim>\<open>processInfo\<close> finds no value for it and does not require
  one.
\<close>

definition unset :: "(string \<rightharpoonup> string) \<Rightarrow> Options \<Rightarrow> varInfo \<Rightarrow> bool" where
  "unset env options info =
     (env (Key info) = None \<and> (Alt info \<noteq> [] \<longrightarrow> env (Alt info) = None) \<and>
      Get (Tags info) ''default'' = [] \<and> \<not> isTrue (Get (Tags info) ''required'') \<and>
      (Required options \<longrightarrow> isFalse (Get (Tags info) ''required'')))"

lemma zero_Struct: "Kind t = Struct \<Longrightarrow> zero t = VStruct (map zeroField (Fields t))"
  by (induction t rule: Fields.induct) (auto split: if_splits)

lemma zeroField_Type: "zeroField ftype = zero (Type ftype)"
  by (cases ftype) simp

lemma zero_Ptr: "Kind t = Ptr \<Longrightarrow> zero t = VNil"
  by (induction t rule: Kind.induct) (auto split: if_splits)

lemma ptrLoop_zero_gen:
  "f = zero t \<Longrightarrow> ptrLoop t f = (n, t', f') \<Longrightarrow> f' = zero t'"
proof (induction t f arbitrary: n rule: ptrLoop.induct)
  case (1 t f)
  show ?case
  proof (cases "Kind t = Ptr")
    case False
    with "1.prems" show ?thesis by (auto simp: ptrLoop.simps [of t])
  next
    case True
    with "1.prems"(1) have nil: "IsNil f" by (simp add: zero_Ptr IsNil_def)
    show ?thesis
    proof (cases "Kind (Elem t) = Struct")
      case False
      with True nil "1.prems" show ?thesis by (auto simp: ptrLoop.simps [of t])
    next
      case struct: True
      obtain m where "ptrLoop (Elem t) (zero (Elem t)) = (m, t', f')"
        using "1.prems" True nil struct
        by (auto simp: ptrLoop.simps [of t] split: prod.splits)
      with "1.IH"(1) [OF True nil _ refl] struct show ?thesis by simp
    qed
  qed
qed

lemma ptrLoop_zero: "ptrLoop t (zero t) = (n, t', f') \<Longrightarrow> f' = zero t'"
  by (rule ptrLoop_zero_gen [OF refl])

lemma getAt_nest: "getAt (replicate n Deref @ p) (nest n v) = getAt p v"
  by (induction n) simp_all


lemma processInfo_unset: "unset env options info \<Longrightarrow> processInfo X env info options s = (s, None)"
  by (auto simp: unset_def processInfo_def lookupEnv_def)

lemma processInfos_unset:
  "\<forall>info\<in>set infos. unset env options info \<Longrightarrow> processInfos X env infos options s = (s, None)"
  by (induction infos) (simp_all add: processInfo_unset)

lemma processEach_unset:
  "\<forall>info\<in>set infos. unset env options info \<Longrightarrow> processEach X env infos options s = (s, [])"
  by (induction infos) (simp_all add: processInfo_unset)

lemma parallelOutcomes_unset:
  assumes "\<forall>info\<in>set infos. unset env options info"
  shows "parallelOutcomes X env infos options s = {(s, None)}"
proof -
  have each: "processEach X env order options s = (s, [])" if "mset order = mset infos" for order
  proof -
    from that have "set order = set infos" by (rule mset_eq_setD)
    with assms show ?thesis by (intro processEach_unset) simp
  qed
  show ?thesis
  proof (intro set_eqI iffI)
    fix x assume "x \<in> parallelOutcomes X env infos options s"
    then obtain s' r order allErrs where x: "x = (s', r)" and m: "mset order = mset infos"
      and s': "s' = fst (processEach X env order options s)"
      and e: "mset allErrs = mset (snd (processEach X env order options s))"
      and r: "if allErrs = [] then r = None
              else if list_ex isPanic allErrs then (\<exists>e. r = Some e \<and> isPanic e \<and> e \<in> set allErrs)
              else r = Some (MultipleErrors allErrs)"
      unfolding parallelOutcomes_def by blast
    from e each [OF m] have "allErrs = []" by simp
    with r s' each [OF m] x show "x \<in> {(s, None)}" by simp
  next
    fix x :: "val \<times> err option" assume "x \<in> {(s, None)}"
    then have x: "x = (s, None)" by simp
    have "\<exists>order allErrs. mset order = mset infos \<and>
        s = fst (processEach X env order options s) \<and>
        mset allErrs = mset (snd (processEach X env order options s)) \<and>
        (if allErrs = [] then (None :: err option) = None
         else if list_ex isPanic allErrs then (\<exists>e. None = Some e \<and> isPanic e \<and> e \<in> set allErrs)
         else None = Some (MultipleErrors allErrs))"
      using each [OF refl] by (intro exI [of _ infos] exI [of _ "[]"]) simp
    with x show "x \<in> parallelOutcomes X env infos options s"
      unfolding parallelOutcomes_def by simp
  qed
qed

lemma gathered_zero:
  "fs = map zeroField ftypes \<Longrightarrow> info \<in> set (gathered X prefix options i ftypes fs) \<Longrightarrow>
   \<exists>j rest. Field info = FieldAt (i + j) # rest \<and>
     j < length (allocated X prefix options i ftypes fs) \<and>
     getAt rest (allocated X prefix options i ftypes fs ! j) = Some (zero (FieldType info))"
proof (induction prefix i ftypes fs arbitrary: info
    rule: gatherFields_induct [where X = X and options = options])
  case (Nil prefix i fs)
  then show ?case by (simp add: gathered_simps)
next
  case (NoValue prefix i ftype ftypes)
  then show ?case by (simp add: gathered_simps)
next
  case (Skip prefix i ftype ftypes f fs)
  from Skip.prems have fs: "fs = map zeroField ftypes"
    and info: "info \<in> set (gathered X prefix options (Suc i) ftypes fs)"
    by (simp_all add: gathered_Skip(1) [OF Skip.hyps])
  from Skip.IH [OF fs info] obtain j rest where
    "Field info = FieldAt (Suc i + j) # rest"
    "j < length (allocated X prefix options (Suc i) ftypes fs)"
    "getAt rest (allocated X prefix options (Suc i) ftypes fs ! j) = Some (zero (FieldType info))"
    by blast
  then show ?case
    by (intro exI [of _ "Suc j"] exI [of _ rest]) (simp add: gathered_Skip(2) [OF Skip.hyps])
next
  case (Leaf prefix i ftype ftypes f fs n t' f')
  from Leaf.prems(1) have f: "f = zero (Type ftype)" and fs: "fs = map zeroField ftypes"
    by (simp_all add: zeroField_Type)
  from Leaf.hyps(3) f have f': "f' = zero t'" by (auto dest: ptrLoop_zero)
  from Leaf.prems(2)
  consider "info = leafInfo prefix options i ftype n t'"
    | "info \<in> set (gathered X prefix options (Suc i) ftypes fs)"
    by (auto simp: gathered_Leaf(1) [OF Leaf.hyps])
  then show ?case
  proof cases
    case 1
    then show ?thesis
      using getAt_nest [of n "[]" f'] f'
      by (intro exI [of _ 0] exI [of _ "replicate n Deref"])
         (simp add: gathered_Leaf(2) [OF Leaf.hyps] leafInfo_def)
  next
    case 2
    from Leaf.IH [OF fs 2] obtain j rest where
      "Field info = FieldAt (Suc i + j) # rest"
      "j < length (allocated X prefix options (Suc i) ftypes fs)"
      "getAt rest (allocated X prefix options (Suc i) ftypes fs ! j) = Some (zero (FieldType info))"
      by blast
    then show ?thesis
      by (intro exI [of _ "Suc j"] exI [of _ rest]) (simp add: gathered_Leaf(2) [OF Leaf.hyps])
  qed
next
  case (Nested prefix i ftype ftypes f fs n t' f')
  let ?ip = "innerPrefix prefix options ftype"
  let ?alloc = "allocated X ?ip options 0 (Fields t') (StructFields f')"
  from Nested.prems(1) have f: "f = zero (Type ftype)" and fs: "fs = map zeroField ftypes"
    by (simp_all add: zeroField_Type)
  from Nested.hyps(3) f have "f' = zero t'" by (auto dest: ptrLoop_zero)
  with Nested.hyps(4) have f': "StructFields f' = map zeroField (Fields t')"
    by (simp add: zero_Struct)
  from Nested.prems(2)
  consider e where "e \<in> set (gathered X ?ip options 0 (Fields t') (StructFields f'))"
      "info = rebase (FieldAt i # replicate n Deref) e"
    | "info \<in> set (gathered X prefix options (Suc i) ftypes fs)"
    by (auto simp: gathered_Nested(1) [OF Nested.hyps])
  then show ?case
  proof cases
    case 1
    from Nested.IH(1) [OF f' 1(1)] obtain j rest where e:
      "Field e = FieldAt j # rest" "j < length ?alloc"
      "getAt rest (?alloc ! j) = Some (zero (FieldType e))"
      by auto
    have "getAt (replicate n Deref @ FieldAt j # rest) (nest n (VStruct ?alloc)) =
        Some (zero (FieldType e))"
      unfolding getAt_nest using e(2,3) by simp
    with 1(2) e(1) show ?thesis
      by (intro exI [of _ 0] exI [of _ "replicate n Deref @ FieldAt j # rest"])
         (simp add: gathered_Nested(2) [OF Nested.hyps] rebase_def)
  next
    case 2
    from Nested.IH(2) [OF fs 2] obtain j rest where
      "Field info = FieldAt (Suc i + j) # rest"
      "j < length (allocated X prefix options (Suc i) ftypes fs)"
      "getAt rest (allocated X prefix options (Suc i) ftypes fs ! j) = Some (zero (FieldType info))"
      by blast
    then show ?thesis
      by (intro exI [of _ "Suc j"] exI [of _ rest]) (simp add: gathered_Nested(2) [OF Nested.hyps])
  qed
qed


text \<open>An example: a struct whose only field points to a struct of one integer.\<close>

definition holderT :: rtype where
  "holderT = StructOf [innerField]"

lemma ToUpper_holder: "ToUpper ''Inner'' = ''INNER''" "ToUpper ''INNER_X'' = ''INNER_X''"
  by code_simp+

text \<open>
  Claim C6, amended.  Take a call whose \<^verbatim>\<open>gatherInfo\<close> returns descriptors that are all unset:
  neither the key nor the alternate key is in the environment, the tag has no default, and
  the field is not required (not tagged required, and tagged not required when the option
  \<^verbatim>\<open>Required\<close> is on).  Then \<^verbatim>\<open>ProcessWithOptions\<close>, with or without parallel execution,
  has one result: no error, and the specification as \<^verbatim>\<open>gatherInfo\<close> left it, that is with
  a zero struct behind every nil pointer to a struct that the pointer loop followed.  When
  the struct held its zero value before the call, the variable of every descriptor holds
  the zero value of its type afterwards: the scalars are zero, and the nil pointers to
  anything but a struct are nil.
\<close>

theorem process_all_unset:
  assumes "gatherInfo X prefix t spec options = Inr (infos, spec')"
    and "\<forall>info\<in>set infos. unset env options info"
  shows "ProcessWithOptions X env prefix t spec options = {(spec', None)} \<and>
    (spec = VPtr (zero (Elem t)) \<longrightarrow>
       (\<forall>info\<in>set infos. getAt (Field info) (ElemV spec') = Some (zero (FieldType info))))"
proof (intro conjI impI ballI)
  note g = gatherInfo_Inr [OF assms(1)]
  from g(2) have p: "VPtr (ElemV spec') = spec'" by simp
  show "ProcessWithOptions X env prefix t spec options = {(spec', None)}"
    by (simp add: ProcessWithOptions_def assms(1) parallelOutcomes_unset [OF assms(2)]
        processInfos_unset [OF assms(2)] p)
next
  fix info
  assume z: "spec = VPtr (zero (Elem t))" and i: "info \<in> set infos"
  note g = gatherInfo_Inr [OF assms(1)]
  from assms(1) have k: "Kind (Elem t) = Struct"
    by (simp add: gatherInfo.simps split: if_splits)
  let ?fs = "StructFields (ElemV spec)"
  from z k have fs: "?fs = map zeroField (Fields (Elem t))" by (simp add: zero_Struct)
  from i g(1) have "info \<in> set (gathered X prefix options 0 (Fields (Elem t)) ?fs)" by simp
  from gathered_zero [OF fs this] g(2)
  show "getAt (Field info) (ElemV spec') = Some (zero (FieldType info))" by auto
qed

lemma noSplitWords:
  "\<not> SplitWords noOptions" "\<not> SplitWords (noOptions\<lparr>ParallelExcecution := True\<rparr>)"
  by (simp_all add: noOptions_def)

lemma holder_gather:
  "\<not> SplitWords options \<Longrightarrow>
   gatherInfo exampleExt [] (PtrTo holderT) (VPtr (zero (Elem (PtrTo holderT)))) options =
     Inr ([\<lparr>Name = ''X'', Alt = [], Key = ''INNER_X'', Field = [FieldAt 0, Deref, FieldAt 0],
            FieldType = Basic IntKind, Tags = []\<rparr>],
          VPtr (VStruct [VPtr (VStruct [VInt 0])]))"
  by (simp add: gatherInfo.simps gatherFields.simps(3) ptrLoop.simps holderT_def innerField_def
      innerT_def IsNil_def fieldKey_def Get_def isTrue_def isFalse_def ParseBool_def
      ToUpper_holder ToUpper_Nil noInterface_exampleExt)

text \<open>
  The claim as stated fails on a struct whose only field is a nil pointer to a struct, with
  an empty environment: the call succeeds, and the field is no longer nil.
\<close>

theorem process_all_unset_counterexample:
  "ProcessWithOptions exampleExt Map.empty [] (PtrTo holderT) (VPtr (zero holderT)) noOptions =
     {(VPtr (VStruct [VPtr (VStruct [VInt 0])]), None)} \<and>
   zero holderT = VStruct [VNil] \<and>
   VStruct [VPtr (VStruct [VInt 0])] \<noteq> zero holderT"
  using holder_gather [OF noSplitWords(1)]
  by (simp add: ProcessWithOptions_def noOptions_def processInfo_def lookupEnv_def Get_def
      isTrue_def ParseBool_def holderT_def innerField_def)

theorem process_all_unset_witness:
  "ProcessWithOptions exampleExt Map.empty [] (PtrTo holderT) (VPtr (zero (Elem (PtrTo holderT))))
      noOptions = {(VPtr (VStruct [VPtr (VStruct [VInt 0])]), None)} \<and>
   ProcessWithOptions exampleExt Map.empty [] (PtrTo holderT) (VPtr (zero (Elem (PtrTo holderT))))
      (noOptions\<lparr>ParallelExcecution := True\<rparr>) = {(VPtr (VStruct [VPtr (VStruct [VInt 0])]), None)} \<and>
   getAt [FieldAt 0, Deref, FieldAt 0] (VStruct [VPtr (VStruct [VInt 0])]) = Some (VInt 0)"
  using process_all_unset [OF holder_gather [OF noSplitWords(1)], of Map.empty]
    process_all_unset [OF holder_gather [OF noSplitWords(2)], of Map.empty]
  by (simp add: unset_def Get_def isTrue_def ParseBool_def noOptions_def)


section \<open>The descriptors lead to variables\<close>

text \<open>
  Every descriptor that \<^verbatim>\<open>gatherInfo\<close> returns leads to a variable of the struct that it
  returns: the pointers on the way are the ones the pointer loop followed or allocated.
\<close>

lemma gathered_getAt:
  "info \<in> set (gathered X prefix options i ftypes fs) \<Longrightarrow>
   \<exists>j rest v. Field info = FieldAt (i + j) # rest \<and>
     j < length (allocated X prefix options i ftypes fs) \<and>
     getAt rest (allocated X prefix options i ftypes fs ! j) = Some v"
proof (induction prefix i ftypes fs arbitrary: info
    rule: gatherFields_induct [where X = X and options = options])
  case (Nil prefix i fs)
  then show ?case by (simp add: gathered_simps)
next
  case (NoValue prefix i ftype ftypes)
  then show ?case by (simp add: gathered_simps)
next
  case (Skip prefix i ftype ftypes f fs)
  from Skip.prems have "info \<in> set (gathered X prefix options (Suc i) ftypes fs)"
    by (simp add: gathered_Skip(1) [OF Skip.hyps])
  from Skip.IH [OF this] obtain j rest v where
    "Field info = FieldAt (Suc i + j) # rest"
    "j < length (allocated X prefix options (Suc i) ftypes fs)"
    "getAt rest (allocated X prefix options (Suc i) ftypes fs ! j) = Some v"
    by blast
  then show ?case
    by (intro exI [of _ "Suc j"] exI [of _ rest] exI [of _ v])
       (simp add: gathered_Skip(2) [OF Skip.hyps])
next
  case (Leaf prefix i ftype ftypes f fs n t' f')
  from Leaf.prems
  consider "info = leafInfo prefix options i ftype n t'"
    | "info \<in> set (gathered X prefix options (Suc i) ftypes fs)"
    by (auto simp: gathered_Leaf(1) [OF Leaf.hyps])
  then show ?case
  proof cases
    case 1
    then show ?thesis
      using getAt_nest [of n "[]" f']
      by (intro exI [of _ 0] exI [of _ "replicate n Deref"] exI [of _ f'])
         (simp add: gathered_Leaf(2) [OF Leaf.hyps] leafInfo_def)
  next
    case 2
    from Leaf.IH [OF 2] obtain j rest v where
      "Field info = FieldAt (Suc i + j) # rest"
      "j < length (allocated X prefix options (Suc i) ftypes fs)"
      "getAt rest (allocated X prefix options (Suc i) ftypes fs ! j) = Some v"
      by blast
    then show ?thesis
      by (intro exI [of _ "Suc j"] exI [of _ rest] exI [of _ v])
         (simp add: gathered_Leaf(2) [OF Leaf.hyps])
  qed
next
  case (Nested prefix i ftype ftypes f fs n t' f')
  let ?ip = "innerPrefix prefix options ftype"
  let ?alloc = "allocated X ?ip options 0 (Fields t') (StructFields f')"
  from Nested.prems
  consider e where "e \<in> set (gathered X ?ip options 0 (Fields t') (StructFields f'))"
      "info = rebase (FieldAt i # replicate n Deref) e"
    | "info \<in> set (gathered X prefix options (Suc i) ftypes fs)"
    by (auto simp: gathered_Nested(1) [OF Nested.hyps])
  then show ?case
  proof cases
    case 1
    from Nested.IH(1) [OF 1(1)] obtain j rest v where e:
      "Field e = FieldAt j # rest" "j < length ?alloc" "getAt rest (?alloc ! j) = Some v"
      by auto
    have "getAt (replicate n Deref @ FieldAt j # rest) (nest n (VStruct ?alloc)) = Some v"
      unfolding getAt_nest using e(2,3) by simp
    with 1(2) e(1) show ?thesis
      by (intro exI [of _ 0] exI [of _ "replicate n Deref @ FieldAt j # rest"] exI [of _ v])
         (simp add: gathered_Nested(2) [OF Nested.hyps] rebase_def)
  next
    case 2
    from Nested.IH(2) [OF 2] obtain j rest v where
      "Field info = FieldAt (Suc i + j) # rest"
      "j < length (allocated X prefix options (Suc i) ftypes fs)"
      "getAt rest (allocated X prefix options (Suc i) ftypes fs ! j) = Some v"
      by blast
    then show ?thesis
      by (intro exI [of _ "Suc j"] exI [of _ rest] exI [of _ v])
         (simp add: gathered_Nested(2) [OF Nested.hyps])
  qed
qed

lemma gatherInfo_getAt:
  assumes "gatherInfo X prefix t spec options = Inr (infos, spec')" and "info \<in> set infos"
  shows "\<exists>v. getAt (Field info) (ElemV spec') = Some v"
proof -
  note g = gatherInfo_Inr [OF assms(1)]
  from assms(2) g(1)
  have "info \<in> set (gathered X prefix options 0 (Fields (Elem t)) (StructFields (ElemV spec)))"
    by simp
  from gathered_getAt [OF this] g(2) show ?thesis by auto
qed

end
